theory Spec2Isabelle
  imports Complex_Main
begin

section \<open>The flags series of js/parts/FlagsSeries.js\<close>

text \<open>
  A shallow embedding of the flags series type: \<open>translate\<close> (placement of each flag on
  a related series or on the x axis, and stacking), \<open>drawPoints\<close>, the mouse-over
  handler that \<open>drawTracker\<close> installs, and the \<open>circlepin\<close>/\<open>squarepin\<close> symbols.

  Conventions of the model.
  \<^item> A JavaScript number is an exact rational (\<open>rat\<close>): rounding of doubles, \<open>NaN\<close>
    and the infinities are not modelled. A value that may be \<open>undefined\<close> is an
    \<open>option\<close>, with \<open>None\<close> for \<open>undefined\<close>.
  \<^item> An object is a record; the points array is a list, updated in place by index.
  \<^item> Reading a property of \<open>undefined\<close> throws a \<open>TypeError\<close>: functions that can
    reach such a read return \<open>error + 'a\<close>.
  \<^item> What the host framework provides (the column series' translate, the renderer, the
    axes, \<open>chart.get\<close>) is read from fields of the series record.
\<close>

subsection \<open>JavaScript values\<close>

datatype error = TypeError

text \<open>Truthiness of an optional string (\<open>undefined\<close> and \<open>''\<close> are falsy) and of an
  optional number (\<open>undefined\<close> and \<open>0\<close> are falsy).\<close>

definition truthy_str :: "string option \<Rightarrow> bool" where
  "truthy_str s = (case s of None \<Rightarrow> False | Some t \<Rightarrow> t \<noteq> [])"

definition truthy_num :: "rat option \<Rightarrow> bool" where
  "truthy_num v = (case v of None \<Rightarrow> False | Some n \<Rightarrow> n \<noteq> 0)"

text \<open>\<open>a || b\<close> on optional strings and optional numbers.\<close>

definition or_str :: "string option \<Rightarrow> string option \<Rightarrow> string option" where
  "or_str a b = (if truthy_str a then a else b)"

definition or_num :: "rat option \<Rightarrow> rat \<Rightarrow> rat" where
  "or_num a b = (case a of None \<Rightarrow> b | Some n \<Rightarrow> if n \<noteq> 0 then n else b)"

text \<open>\<open>arr[i]\<close>: \<open>undefined\<close> outside the array.\<close>

definition nth_js :: "'a list \<Rightarrow> int \<Rightarrow> 'a option" where
  "nth_js xs i = (if 0 \<le> i \<and> i < int (length xs) then Some (xs ! nat i) else None)"

text \<open>\<open>Math.round\<close>: the nearest integer, halves going up.\<close>

definition Math_round :: "rat \<Rightarrow> rat" where
  "Math_round v = of_int \<lfloor>v + 1 / 2\<rfloor>"

text \<open>\<open>a % b\<close> for \<open>b\<close> other than 0: the remainder of the division truncated
  towards zero.\<close>

definition js_rem :: "rat \<Rightarrow> rat \<Rightarrow> rat" where
  "js_rem a b =
     (let q = a / b in a - b * of_int (if 0 \<le> q then \<lfloor>q\<rfloor> else \<lceil>q\<rceil>))"

text \<open>\<open>c.toUpperCase()\<close> of one character, for the ASCII letters.\<close>

definition toUpperCase :: "char \<Rightarrow> char" where
  "toUpperCase c =
     (let n = (of_char c :: nat) in if 97 \<le> n \<and> n \<le> 122 then char_of (n - 32) else c)"

subsection \<open>The data model\<close>

text \<open>The label that \<open>renderer.label\<close> returns, with the attributes the series sets
  on it. \<open>g_strokeWidth\<close> is what \<open>graphic.strokeWidth()\<close> reads.\<close>

record graphic =
  g_shape :: "string option"
  g_strokeWidth :: rat
  g_text :: string
  g_x :: "rat option"
  g_y :: "rat option"
  g_anchorX :: "rat option"
  g_anchorY :: "rat option"

text \<open>A flag point. \<open>p_x\<close> is \<open>point.x\<close>, \<open>p_title\<close> and \<open>p_shape\<close> are
  \<open>point.options.title\<close> and \<open>point.options.shape\<close>, \<open>stored_y\<close> is \<open>point._y\<close>.
  \<open>plotX\<close>, \<open>plotY\<close> and \<open>shapeArgs\<close> hold on entry what the column series' translate
  has computed.\<close>

record point =
  p_x :: rat
  p_title :: "string option"
  p_shape :: "string option"
  p_lineWidth :: "rat option"
  plotX :: rat
  plotY :: "rat option"
  stackIndex :: "nat option"
  shapeArgs :: "(string \<times> rat) list"
  graphic :: "graphic option"
  raised :: bool
  stored_y :: "rat option"
  tooltipPos :: "(rat \<times> rat) option"

text \<open>A point of the related series: its x and its pixel channels (\<open>plotY\<close>,
  \<open>plotOpen\<close>, \<open>plotHigh\<close>, \<open>plotLow\<close>, \<open>plotClose\<close>), read by property name.\<close>

record on_point =
  on_x :: rat
  on_props :: "string \<Rightarrow> rat option"

text \<open>The related series: \<open>on_step\<close> is \<open>onSeries.options.step\<close>, \<open>on_points\<close> is
  \<open>onSeries.points\<close>, \<open>currentDataGrouping\<close> holds the \<open>totalRange\<close> of the grouping
  when there is one.\<close>

record on_series =
  visible :: bool
  on_step :: "string option"
  on_points :: "on_point list"
  pointXOffset :: "rat option"
  barW :: "rat option"
  currentDataGrouping :: "rat option"

text \<open>\<open>series.options\<close>.\<close>

record flag_options =
  o_onSeries :: "string option"
  o_onKey :: "string option"
  o_shape :: "string option"
  o_stackDistance :: rat
  o_title :: "string option"
  o_y :: rat
  o_lineWidth :: "rat option"

text \<open>The defaults of the series type: \<open>shape: 'flag'\<close>, \<open>stackDistance: 12\<close>,
  \<open>y: -30\<close>, \<open>lineWidth: 1\<close>; \<open>onSeries\<close>, \<open>onKey\<close> and \<open>title\<close> have none.\<close>

definition plotOptions_flags :: flag_options where
  "plotOptions_flags =
     \<lparr>o_onSeries = None, o_onKey = None, o_shape = Some ''flag'', o_stackDistance = 12,
      o_title = None, o_y = - 30, o_lineWidth = Some 1\<rparr>"

text \<open>The chart and the axes of the series, as far as the series reads them.
  \<open>xAxis_min\<close> and \<open>xAxis_max\<close> are \<open>xAxis.getExtremes()\<close>.\<close>

record host =
  chart_get :: "string \<Rightarrow> on_series option"
  chartHeight :: rat
  chart_inverted :: bool
  plotLeft :: rat
  plotTop :: rat
  xAxis_bottom :: rat
  xAxis_opposite :: bool
  xAxis_height :: rat
  xAxis_offset :: rat
  xAxis_len :: rat
  xAxis_min :: rat
  xAxis_max :: rat
  yAxis_top :: rat
  yAxis_len :: rat
  yAxis_pos :: rat

record series =
  options :: flag_options
  chart :: host
  points :: "point list"

subsection \<open>translate: placing the flags on the related series\<close>

text \<open>Modelled from the spec: \<open>stableSort\<close> of Utilities.js, which is not part of the
  sources at hand. The spec has the flags re-sorted in ascending x order, and the name
  says that flags of equal x keep their order: a stable sort on \<open>point.x\<close>.\<close>

definition stableSort :: "point list \<Rightarrow> point list" where
  "stableSort ps = sort_key p_x ps"

text \<open>\<open>'plot' + onKey[0].toUpperCase() + onKey.substr(1)\<close>. On the empty string
  \<open>onKey[0]\<close> is \<open>undefined\<close> and the call throws.\<close>

definition plotKey :: "string \<Rightarrow> error + string" where
  "plotKey onKey =
     (case onKey of [] \<Rightarrow> Inl TypeError | c # cs \<Rightarrow> Inr (''plot'' @ toUpperCase c # cs))"

text \<open>The body of \<open>if (point.x <= lastX)\<close>: the point takes the channel value of
  \<open>leftPoint = onData[i]\<close>, interpolated towards \<open>rightPoint = onData[i + 1]\<close>.\<close>

definition bind_point :: "on_point list \<Rightarrow> string \<Rightarrow> bool \<Rightarrow> nat \<Rightarrow> on_point \<Rightarrow> point \<Rightarrow> point" where
  "bind_point onData onKey step i leftPoint pt =
     (let y0 = on_props leftPoint onKey in
      if on_x leftPoint < p_x pt \<and> \<not> step then
        (case nth_js onData (int i + 1) of
           None \<Rightarrow> pt\<lparr>plotY := y0\<rparr>
         | Some rightPoint \<Rightarrow>
             (case on_props rightPoint onKey of
                None \<Rightarrow> pt\<lparr>plotY := y0\<rparr>
              | Some yr \<Rightarrow>
                  pt\<lparr>plotY := map_option
                    (\<lambda>yl. yl + ((p_x pt - on_x leftPoint) / (on_x rightPoint - on_x leftPoint))
                                * (yr - yl)) y0\<rparr>))
      else pt\<lparr>plotY := y0\<rparr>)"

text \<open>The loop \<open>while (i-- && points[cursor])\<close>. The argument \<open>i\<close> is the value that
  \<open>i--\<close> tests; the body runs with \<open>i - 1\<close>, and a match puts \<open>i\<close> back so that the
  same \<open>leftPoint\<close> is tried on the next flag.\<close>

function attach_loop ::
  "on_point list \<Rightarrow> string \<Rightarrow> bool \<Rightarrow> rat \<Rightarrow> nat \<Rightarrow> int \<Rightarrow> point list \<Rightarrow> error + point list"
where
  "attach_loop onData onKey step lastX i cursor pts =
     (if i = 0 then Inr pts
      else
        (case nth_js pts cursor of
           None \<Rightarrow> Inr pts
         | Some pt \<Rightarrow>
             (case nth_js onData (int (i - 1)) of
                None \<Rightarrow> Inl TypeError
              | Some leftPoint \<Rightarrow>
                  if on_x leftPoint \<le> p_x pt \<and> on_props leftPoint onKey \<noteq> None then
                    (let pts' =
                       (if p_x pt \<le> lastX
                        then pts[nat cursor := bind_point onData onKey step (i - 1) leftPoint pt]
                        else pts)
                     in if cursor - 1 < 0 then Inr pts'
                        else attach_loop onData onKey step lastX i (cursor - 1) pts')
                  else attach_loop onData onKey step lastX (i - 1) cursor pts)))"
  by pat_completeness auto
termination
  by (relation "measure (\<lambda>(onData, onKey, step, lastX, i, cursor, pts). i + nat cursor)")
     (auto simp: nth_js_def split: if_splits)

declare attach_loop.simps [simp del]

text \<open>\<open>onSeries = optionsOnSeries && chart.get(optionsOnSeries)\<close> and
  \<open>onKey = options.onKey || 'y'\<close>.\<close>

definition onSeries_of :: "series \<Rightarrow> on_series option" where
  "onSeries_of s =
     (let optionsOnSeries = o_onSeries (options s) in
      if truthy_str optionsOnSeries then chart_get (chart s) (the optionsOnSeries) else None)"

definition onKey_of :: "flag_options \<Rightarrow> string" where
  "onKey_of opts = the (or_str (o_onKey opts) (Some ''y''))"

text \<open>\<open>xOffset = (onSeries.pointXOffset || 0) + (onSeries.barW || 0) / 2\<close>,
  \<open>currentDataGrouping ? currentDataGrouping.totalRange : 0\<close> and
  \<open>lastX = onData[i - 1].x + ...\<close> with \<open>i = onData.length\<close>, for a related series
  that has points.\<close>

definition xOffset_of :: "on_series \<Rightarrow> rat" where
  "xOffset_of os = or_num (pointXOffset os) 0 + or_num (barW os) 0 / 2"

definition totalRange :: "on_series \<Rightarrow> rat" where
  "totalRange os = (case currentDataGrouping os of None \<Rightarrow> 0 | Some r \<Rightarrow> r)"

definition lastX_of :: "on_series \<Rightarrow> rat" where
  "lastX_of os = on_x (on_points os ! (length (on_points os) - 1)) + totalRange os"

text \<open>The first half of \<open>translate\<close>: the related series, the x offset, the sort and
  the loop. It returns \<open>xOffset\<close> and the points.\<close>

definition attach :: "series \<Rightarrow> error + (rat \<times> point list)" where
  "attach s =
     (case onSeries_of s of
        None \<Rightarrow> Inr (0, points s)
      | Some os \<Rightarrow>
          (let onData = on_points os; i = length onData in
           if visible os \<and> i \<noteq> 0 then
             (let pts = stableSort (points s) in
              case plotKey (onKey_of (options s)) of
                Inl e \<Rightarrow> Inl e
              | Inr onKey \<Rightarrow>
                  (case attach_loop onData onKey (truthy_str (on_step os)) (lastX_of os) i
                          (int (length pts) - 1) pts of
                     Inl e \<Rightarrow> Inl e
                   | Inr pts' \<Rightarrow> Inr (xOffset_of os, pts')))
           else Inr (0, points s)))"

subsection \<open>translate: the x axis fallback and the stacks\<close>

text \<open>The first half of the callback of \<open>each(points, function (point, i) ...)\<close>:
  a point without \<open>plotY\<close> is put on the axis, or loses its \<open>shapeArgs\<close>; then
  \<open>point.plotX += xOffset\<close>.\<close>

definition axis_plotY :: "host \<Rightarrow> rat" where
  "axis_plotY c =
     chartHeight c - xAxis_bottom c - (if xAxis_opposite c then xAxis_height c else 0) +
     xAxis_offset c - yAxis_top c"

definition place_point :: "host \<Rightarrow> rat \<Rightarrow> point \<Rightarrow> point" where
  "place_point c xOffset pt =
     (let pt1 = (if plotY pt = None then
                   (if xAxis_min c \<le> p_x pt \<and> p_x pt \<le> xAxis_max c
                    then pt\<lparr>plotY := Some (axis_plotY c)\<rparr>
                    else pt\<lparr>shapeArgs := []\<rparr>)
                 else pt)
      in pt1\<lparr>plotX := plotX pt1 + xOffset\<rparr>)"

text \<open>The whole callback, on the points array: after the placement, the point is
  ranked against \<open>lastPoint = points[i - 1]\<close>.\<close>

definition stack_step :: "host \<Rightarrow> rat \<Rightarrow> nat \<Rightarrow> point list \<Rightarrow> point list" where
  "stack_step c xOffset i pts =
     (let pt = place_point c xOffset (pts ! i) in
      case nth_js pts (int i - 1) of
        None \<Rightarrow> pts[i := pt\<lparr>stackIndex := None\<rparr>]
      | Some lastPoint \<Rightarrow>
          if plotX lastPoint = plotX pt then
            (let n = (case stackIndex lastPoint of None \<Rightarrow> 0 | Some m \<Rightarrow> m)
             in pts[i - 1 := lastPoint\<lparr>stackIndex := Some n\<rparr>,
                    i := pt\<lparr>stackIndex := Some (n + 1)\<rparr>])
          else pts[i := pt\<lparr>stackIndex := None\<rparr>])"

text \<open>Modelled from the spec: \<open>each\<close> of Utilities.js, which is not part of the
  sources at hand. The spec has the points walked in their final order; the callback
  is given the index and works on the array.\<close>

definition each :: "(nat \<Rightarrow> 'a list \<Rightarrow> 'a list) \<Rightarrow> 'a list \<Rightarrow> 'a list" where
  "each f xs = fold f [0..<length xs] xs"

definition translate :: "series \<Rightarrow> error + series" where
  "translate s =
     (case attach s of
        Inl e \<Rightarrow> Inl e
      | Inr (xOffset, pts) \<Rightarrow> Inr (s\<lparr>points := each (stack_step (chart s) xOffset) pts\<rparr>))"

subsection \<open>drawPoints\<close>

text \<open>The \<open>stroke-width\<close> of \<open>pointAttribs(point)\<close>, called with no state:
  \<open>lineWidth || options.lineWidth || 0\<close>. The colours are left out.\<close>

definition pointAttribs :: "flag_options \<Rightarrow> point \<Rightarrow> rat" where
  "pointAttribs opts pt = or_num (p_lineWidth pt) (or_num (o_lineWidth opts) 0)"

text \<open>Modelled from the spec: \<open>renderer.label\<close> of SvgRenderer.js, which is not part
  of the sources at hand. The spec has a label-shaped graphic materialised for the
  point: a fresh label of the given shape with no text and no position, whose stroke
  width is the one of the point's attributes.\<close>

definition label :: "string option \<Rightarrow> rat \<Rightarrow> graphic" where
  "label shape sw =
     \<lparr>g_shape = shape, g_strokeWidth = sw, g_text = [], g_x = None, g_y = None,
      g_anchorX = None, g_anchorY = None\<rparr>"

text \<open>The body of the loop \<open>while (i--)\<close> of \<open>drawPoints\<close>, on \<open>point = points[i]\<close>.
  \<open>graphic.destroy()\<close> leaves the point without a graphic.\<close>

definition draw_point :: "series \<Rightarrow> point \<Rightarrow> point" where
  "draw_point s pt =
     (let opts = options s; c = chart s;
          outsideRight = (xAxis_len c < plotX pt);
          px = plotX pt;
          shape = or_str (p_shape pt) (o_shape opts);
          py = (case plotY pt of
                  None \<Rightarrow> None
                | Some y \<Rightarrow>
                    Some (y + o_y opts -
                      (case stackIndex pt of None \<Rightarrow> 0
                       | Some n \<Rightarrow> of_nat n * o_stackDistance opts)));
          stacked = (case stackIndex pt of None \<Rightarrow> False | Some n \<Rightarrow> n \<noteq> 0);
          anchorX = (if stacked then None else Some (plotX pt));
          anchorY = (if stacked then None else plotY pt)
      in case py of
           Some y' \<Rightarrow>
             if 0 \<le> px \<and> \<not> outsideRight then
               (let g = (case graphic pt of
                           None \<Rightarrow> label shape (pointAttribs opts pt)
                         | Some g0 \<Rightarrow> g0);
                    px' = (if 0 < px then px - js_rem (g_strokeWidth g) 2 else px)
                in pt\<lparr>graphic := Some (g\<lparr>
                        g_text := the (or_str (or_str (p_title pt) (o_title opts)) (Some ''A'')),
                        g_x := Some px', g_y := Some y',
                        g_anchorX := anchorX, g_anchorY := anchorY\<rparr>),
                      tooltipPos := Some
                        (if chart_inverted c
                         then (yAxis_len c + yAxis_pos c - plotLeft c - y', xAxis_len c - px')
                         else (px', y' + yAxis_pos c - plotTop c))\<rparr>)
             else (case graphic pt of None \<Rightarrow> pt | Some g \<Rightarrow> pt\<lparr>graphic := None\<rparr>)
         | None \<Rightarrow> (case graphic pt of None \<Rightarrow> pt | Some g \<Rightarrow> pt\<lparr>graphic := None\<rparr>))"

fun drawPoints_loop :: "series \<Rightarrow> nat \<Rightarrow> point list \<Rightarrow> point list" where
  "drawPoints_loop s 0 pts = pts"
| "drawPoints_loop s (Suc i) pts = drawPoints_loop s i (pts[i := draw_point s (pts ! i)])"

definition drawPoints :: "series \<Rightarrow> series" where
  "drawPoints s = s\<lparr>points := drawPoints_loop s (length (points s)) (points s)\<rparr>"

subsection \<open>drawTracker: raising a stacked flag on mouse over\<close>

text \<open>The callback of the inner \<open>each\<close>, which reverts \<open>otherPoint = points[j]\<close>;
  \<open>k\<close> is the index of the point under the mouse.\<close>

definition revert_step :: "nat \<Rightarrow> nat \<Rightarrow> point list \<Rightarrow> point list" where
  "revert_step k j pts =
     (let otherPoint = pts ! j in
      if j \<noteq> k \<and> raised otherPoint then
        (case graphic otherPoint of
           None \<Rightarrow> pts
         | Some g \<Rightarrow>
             pts[j := otherPoint\<lparr>graphic := Some (g\<lparr>g_y := stored_y otherPoint\<rparr>),
                                  raised := False\<rparr>])
      else pts)"

text \<open>The \<open>mouseover\<close> listener of \<open>point = points[k]\<close>, run on the points array.
  The \<open>graphic\<close> of the listener is the one the point had when \<open>drawTracker\<close> ran; it
  is the graphic of the point as long as no redraw comes in between. \<open>graphic.attr\<close> and
  \<open>graphic.y\<close> of the renderer store and read the value; \<open>undefined - 8\<close>, not a
  number, is \<open>None\<close>.\<close>

definition mouseover :: "nat \<Rightarrow> point list \<Rightarrow> point list" where
  "mouseover k pts =
     (let pt = pts ! k in
      case graphic pt of
        None \<Rightarrow> pts
      | Some g \<Rightarrow>
          (let pts1 =
             (if (case stackIndex pt of None \<Rightarrow> False | Some n \<Rightarrow> 0 < n) \<and> \<not> raised pt
              then pts[k := pt\<lparr>stored_y := g_y g,
                                graphic := Some (g\<lparr>g_y := map_option (\<lambda>y. y - 8) (g_y g)\<rparr>),
                                raised := True\<rparr>]
              else pts)
           in each (revert_step k) pts1))"

text \<open>\<open>drawTracker\<close> adds the listener to the graphic of every point that has one: the
  result is the listener of point \<open>k\<close>, if any.\<close>

definition drawTracker :: "point list \<Rightarrow> nat \<Rightarrow> (point list \<Rightarrow> point list) option" where
  "drawTracker pts k =
     (if k < length pts \<and> graphic (pts ! k) \<noteq> None then Some (mouseover k) else None)"

text \<open>A mouse-over event on the graphic of point \<open>k\<close> of the series: the listener that
  \<open>drawTracker\<close> has added to it runs, if there is one.\<close>

definition hover :: "nat \<Rightarrow> series \<Rightarrow> series" where
  "hover k s =
     (case drawTracker (points s) k of
        None \<Rightarrow> s
      | Some listener \<Rightarrow> s\<lparr>points := listener (points s)\<rparr>)"

subsection \<open>A redraw of the series\<close>

text \<open>Modelled from the spec: the translate of the column series, which \<open>translate\<close>
  calls first and which is not part of the sources at hand. The spec has the computed
  fields of the points recalculated on every translate pass, from the pixel mapping of
  the axis: every point gets its \<open>plotX\<close> from its x, and no \<open>plotY\<close>, as a flag has no
  y value. The points themselves, with their \<open>graphic\<close>, \<open>raised\<close> and \<open>_y\<close>, stay.\<close>

definition column_translate :: "(rat \<Rightarrow> rat) \<Rightarrow> point list \<Rightarrow> point list" where
  "column_translate toPixels pts = map (\<lambda>p. p\<lparr>plotX := toPixels (p_x p), plotY := None\<rparr>) pts"

text \<open>A redraw after the axes have changed (a zoom): the chart and its axes are the new
  ones, then \<open>translate\<close> runs as a whole, then \<open>drawPoints\<close>.\<close>

definition redraw :: "host \<Rightarrow> (rat \<Rightarrow> rat) \<Rightarrow> series \<Rightarrow> error + series" where
  "redraw c toPixels s =
     (case translate (s\<lparr>chart := c, points := column_translate toPixels (points s)\<rparr>) of
        Inl e \<Rightarrow> Inl e
      | Inr s' \<Rightarrow> Inr (drawPoints s'))"

subsection \<open>The pin symbols\<close>

datatype path_item = Cmd string | Num rat

text \<open>The box that \<open>symbols[shape + 'pin']\<close> hands to \<open>symbols[shape]\<close>: a circle taller
  than wide is widened.\<close>

definition pin_box :: "string \<Rightarrow> rat \<Rightarrow> rat \<Rightarrow> rat \<Rightarrow> rat \<Rightarrow> rat \<times> rat \<times> rat \<times> rat" where
  "pin_box shape x y w h =
     (if shape = ''circle'' \<and> w < h then (x - Math_round ((h - w) / 2), y, h, h)
      else (x, y, w, h))"

text \<open>\<open>symbols[shape + 'pin']\<close>. \<open>base\<close> is \<open>symbols[shape]\<close>, a symbol of the renderer;
  \<open>anchorX\<close> and \<open>anchorY\<close> are \<open>options && options.anchorX\<close> and
  \<open>options && options.anchorY\<close>.\<close>

definition pin ::
  "string \<Rightarrow> (rat \<Rightarrow> rat \<Rightarrow> rat \<Rightarrow> rat \<Rightarrow> path_item list) \<Rightarrow>
   rat \<Rightarrow> rat \<Rightarrow> rat \<Rightarrow> rat \<Rightarrow> rat option \<Rightarrow> rat option \<Rightarrow> path_item list" where
  "pin shape base x y w h anchorX anchorY =
     (case pin_box shape x y w h of
        (x', y', w', h') \<Rightarrow>
          (let path = base x' y' w' h' in
           if truthy_num anchorX \<and> truthy_num anchorY then
             (let ax = the anchorX; ay = the anchorY;
                  labelTopOrBottomY = (if ay < y' then y' else y' + h')
              in path @ [Cmd ''M'', Num ax, Num labelTopOrBottomY, Cmd ''L'', Num ax, Num ay])
           else path))"

definition circlepin ::
  "(rat \<Rightarrow> rat \<Rightarrow> rat \<Rightarrow> rat \<Rightarrow> path_item list) \<Rightarrow>
   rat \<Rightarrow> rat \<Rightarrow> rat \<Rightarrow> rat \<Rightarrow> rat option \<Rightarrow> rat option \<Rightarrow> path_item list" where
  "circlepin = pin ''circle''"

definition squarepin ::
  "(rat \<Rightarrow> rat \<Rightarrow> rat \<Rightarrow> rat \<Rightarrow> path_item list) \<Rightarrow>
   rat \<Rightarrow> rat \<Rightarrow> rat \<Rightarrow> rat \<Rightarrow> rat option \<Rightarrow> rat option \<Rightarrow> path_item list" where
  "squarepin = pin ''square''"

section \<open>What the placement is specified to compute\<close>

text \<open>The words of the specification, as definitions of their own: a reference point
  is a candidate for a flag at \<open>v\<close> when its x is at most \<open>v\<close> and its channel is
  defined; the nearest one is the candidate of greatest index (the reference points are
  walked from the last one down); a flag is resolved against its nearest candidate
  unless it lies beyond \<open>lastX\<close>.\<close>

definition candidate :: "string \<Rightarrow> rat \<Rightarrow> on_point \<Rightarrow> bool" where
  "candidate onKey v r = (on_x r \<le> v \<and> on_props r onKey \<noteq> None)"

fun nearest_left :: "on_point list \<Rightarrow> string \<Rightarrow> rat \<Rightarrow> nat \<Rightarrow> nat option" where
  "nearest_left onData onKey v 0 = None"
| "nearest_left onData onKey v (Suc n) =
     (if candidate onKey v (onData ! n) then Some n else nearest_left onData onKey v n)"

definition resolve :: "on_point list \<Rightarrow> string \<Rightarrow> bool \<Rightarrow> rat \<Rightarrow> point \<Rightarrow> point" where
  "resolve onData onKey step lastX pt =
     (case nearest_left onData onKey (p_x pt) (length onData) of
        None \<Rightarrow> pt
      | Some j \<Rightarrow>
          if p_x pt \<le> lastX then bind_point onData onKey step j (onData ! j) pt else pt)"

text \<open>The rank of a point in its stack: the number of points right before it, in the
  order of the array, that share its \<open>plotX\<close>.\<close>

fun rank :: "point list \<Rightarrow> nat \<Rightarrow> nat" where
  "rank pts 0 = 0"
| "rank pts (Suc k) = (if plotX (pts ! k) = plotX (pts ! Suc k) then rank pts k + 1 else 0)"

text \<open>The \<open>stackIndex\<close> of point \<open>k\<close> once the first \<open>n\<close> points have been walked: its
  rank when that is positive; else 0 when the next point has been walked and has found
  it at its own \<open>plotX\<close>; else \<open>undefined\<close>.\<close>

definition stackIndex_after :: "point list \<Rightarrow> nat \<Rightarrow> nat \<Rightarrow> nat option" where
  "stackIndex_after pts n k =
     (if 0 < rank pts k then Some (rank pts k)
      else if Suc k < n \<and> plotX (pts ! Suc k) = plotX (pts ! k) then Some 0 else None)"

text \<open>Point \<open>k\<close> has the \<open>plotX\<close> of the point right before it, or right after it.\<close>

definition same_plotX_as_previous :: "point list \<Rightarrow> nat \<Rightarrow> bool" where
  "same_plotX_as_previous ps k = (0 < k \<and> plotX (ps ! (k - 1)) = plotX (ps ! k))"

definition same_plotX_as_next :: "point list \<Rightarrow> nat \<Rightarrow> bool" where
  "same_plotX_as_next ps k = (Suc k < length ps \<and> plotX (ps ! Suc k) = plotX (ps ! k))"

text \<open>A point is stacked when it has a positive \<open>stackIndex\<close>; the offset of its stack
  is \<open>stackIndex * stackDistance\<close>, and 0 for a point without \<open>stackIndex\<close>.\<close>

definition stacked :: "point \<Rightarrow> bool" where
  "stacked pt = (case stackIndex pt of None \<Rightarrow> False | Some n \<Rightarrow> 0 < n)"

definition stack_offset :: "flag_options \<Rightarrow> point \<Rightarrow> rat" where
  "stack_offset opts pt =
     (case stackIndex pt of None \<Rightarrow> 0 | Some n \<Rightarrow> of_nat n * o_stackDistance opts)"

text \<open>The chain of titles as C10 states it: the title of the point when set, otherwise
  the title of the series when set, otherwise \<open>A\<close>.\<close>

definition title_chain :: "flag_options \<Rightarrow> point \<Rightarrow> string" where
  "title_chain opts pt =
     (case p_title pt of
        Some t \<Rightarrow> t
      | None \<Rightarrow> (case o_title opts of Some t \<Rightarrow> t | None \<Rightarrow> ''A''))"

text \<open>What a mouse-over does to the point under the mouse and to every other point; the
  raised state of a point is its \<open>raised\<close> flag.\<close>

definition raise_point :: "point \<Rightarrow> point" where
  "raise_point pt =
     (case graphic pt of
        None \<Rightarrow> pt
      | Some g \<Rightarrow>
          if stacked pt \<and> \<not> raised pt
          then pt\<lparr>stored_y := g_y g,
                  graphic := Some (g\<lparr>g_y := map_option (\<lambda>y. y - 8) (g_y g)\<rparr>),
                  raised := True\<rparr>
          else pt)"

definition revert_point :: "point \<Rightarrow> point" where
  "revert_point pt =
     (case graphic pt of
        None \<Rightarrow> pt
      | Some g \<Rightarrow>
          if raised pt
          then pt\<lparr>graphic := Some (g\<lparr>g_y := stored_y pt\<rparr>), raised := False\<rparr>
          else pt)"

definition at_most_one_raised :: "point list \<Rightarrow> bool" where
  "at_most_one_raised pts =
     (\<forall>i<length pts. \<forall>j<length pts. raised (pts ! i) \<and> raised (pts ! j) \<longrightarrow> i = j)"

section \<open>Example charts\<close>

text \<open>A related series \<open>ohlc\<close> with \<open>plotHigh\<close> 100 at x = 0 and 120 at x = 10, and a
  flags series on its \<open>high\<close> key with flags at 15, 5, 10 and 10.\<close>

definition ex_on :: on_series where
  "ex_on =
     \<lparr>visible = True, on_step = None,
      on_points =
        [\<lparr>on_x = 0, on_props = (\<lambda>k. if k = ''plotHigh'' then Some 100 else None)\<rparr>,
         \<lparr>on_x = 10, on_props = (\<lambda>k. if k = ''plotHigh'' then Some 120 else None)\<rparr>],
      pointXOffset = None, barW = None, currentDataGrouping = None\<rparr>"

definition ex_host :: host where
  "ex_host =
     \<lparr>chart_get = (\<lambda>id. if id = ''ohlc'' then Some ex_on else None),
      chartHeight = 400, chart_inverted = False, plotLeft = 10, plotTop = 10,
      xAxis_bottom = 50, xAxis_opposite = False, xAxis_height = 0, xAxis_offset = 0,
      xAxis_len = 300, xAxis_min = 0, xAxis_max = 20,
      yAxis_top = 10, yAxis_len = 340, yAxis_pos = 10\<rparr>"

definition ex_flag :: "rat \<Rightarrow> point" where
  "ex_flag v =
     \<lparr>p_x = v, p_title = None, p_shape = None, p_lineWidth = None,
      plotX = 10 * v, plotY = None, stackIndex = None,
      shapeArgs = [(''x'', 10 * v), (''width'', 0)],
      graphic = None, raised = False, stored_y = None, tooltipPos = None\<rparr>"

definition ex_options :: flag_options where
  "ex_options = plotOptions_flags\<lparr>o_onSeries := Some ''ohlc'', o_onKey := Some ''high''\<rparr>"

definition ex_series :: series where
  "ex_series =
     \<lparr>options = ex_options, chart = ex_host,
      points = [ex_flag 15, ex_flag 5, ex_flag 10, ex_flag 10]\<rparr>"

text \<open>A flags series on the x axis: three flags at x = 5, and a flag at x = 25, beyond
  the extremes of the axis, that has a graphic from an earlier redraw.\<close>

definition ex_axis_options :: flag_options where
  "ex_axis_options = plotOptions_flags\<lparr>o_title := Some ''B''\<rparr>"

definition ex_label :: graphic where
  "ex_label =
     \<lparr>g_shape = Some ''flag'', g_strokeWidth = 1, g_text = ''A'', g_x = Some 249,
      g_y = Some 310, g_anchorX = Some 250, g_anchorY = Some 340\<rparr>"

definition ex_axis :: series where
  "ex_axis =
     \<lparr>options = ex_axis_options, chart = ex_host,
      points = [ex_flag 5, ex_flag 5, ex_flag 5, (ex_flag 25)\<lparr>graphic := Some ex_label\<rparr>]\<rparr>"

text \<open>The three flags at x = 5 as \<open>translate\<close> leaves them, with the flag at x = 25
  and a flag whose title is the empty string.\<close>

definition ex_placed :: "nat option \<Rightarrow> point" where
  "ex_placed si = (ex_flag 5)\<lparr>plotY := Some 340, stackIndex := si\<rparr>"

definition ex_drawn :: series where
  "ex_drawn =
     \<lparr>options = ex_axis_options, chart = ex_host,
      points = [ex_placed (Some 0), ex_placed (Some 1), ex_placed (Some 2),
                (ex_flag 25)\<lparr>shapeArgs := [], graphic := Some ex_label\<rparr>,
                (ex_placed None)\<lparr>p_title := Some []\<rparr>]\<rparr>"

text \<open>A flags series on the x axis with two stacks, at x = 5 and at x = 15, and the
  chart zoomed to the x range from 10 to 20, which leaves the stack at x = 5 outside.
  Then a session: the first drawing, the mouse over the upper flag at x = 5, the zoom,
  the mouse over the upper flag at x = 15, and the zoom back.\<close>

definition ex_two :: series where
  "ex_two =
     \<lparr>options = ex_axis_options, chart = ex_host,
      points = [ex_flag 5, ex_flag 5, ex_flag 15, ex_flag 15]\<rparr>"

definition ex_host_zoomed :: host where
  "ex_host_zoomed = ex_host\<lparr>xAxis_min := 10, xAxis_max := 20\<rparr>"

definition ex_session :: "error + series" where
  "ex_session =
     (case redraw ex_host (\<lambda>v. 10 * v) ex_two of
        Inl e \<Rightarrow> Inl e
      | Inr s1 \<Rightarrow>
          (case redraw ex_host_zoomed (\<lambda>v. 30 * (v - 10)) (hover 1 s1) of
             Inl e \<Rightarrow> Inl e
           | Inr s2 \<Rightarrow> redraw ex_host (\<lambda>v. 10 * v) (hover 3 s2)))"

section \<open>The loop of the placement computes the specified resolution\<close>

lemma nearest_left_None:
  "nearest_left onData onKey v n = None \<longleftrightarrow> (\<forall>j<n. \<not> candidate onKey v (onData ! j))"
  by (induction n) (auto simp: less_Suc_eq)

lemma nearest_left_Some:
  "nearest_left onData onKey v n = Some j \<longleftrightarrow>
     j < n \<and> candidate onKey v (onData ! j) \<and> (\<forall>j'. j < j' \<and> j' < n \<longrightarrow> \<not> candidate onKey v (onData ! j'))"
proof (induction n)
  case 0 then show ?case by simp
next
  case (Suc n)
  show ?case
  proof (cases "candidate onKey v (onData ! n)")
    case True
    then show ?thesis
      by (auto simp: less_Suc_eq)
  next
    case False
    then show ?thesis using Suc
      by (auto simp: less_Suc_eq)
  qed
qed

lemma p_x_bind_point [simp]: "p_x (bind_point onData onKey step i l pt) = p_x pt"
  by (simp add: bind_point_def Let_def split: option.splits)

lemma attach_loop_spec:
  assumes "i \<le> length onData" "- 1 \<le> cursor" "cursor < int (length pts)"
    and "\<forall>a b. a \<le> b \<and> b < length pts \<longrightarrow> p_x (pts ! a) \<le> p_x (pts ! b)"
    and "\<forall>j. 0 \<le> cursor \<and> i \<le> j \<and> j < length onData \<longrightarrow>
           \<not> candidate onKey (p_x (pts ! nat cursor)) (onData ! j)"
  shows "\<exists>pts'. attach_loop onData onKey step lastX i cursor pts = Inr pts' \<and>
           length pts' = length pts \<and>
           (\<forall>k<length pts. pts' ! k =
              (if int k \<le> cursor then resolve onData onKey step lastX (pts ! k) else pts ! k))"
  using assms
proof (induction onData onKey step lastX i cursor pts rule: attach_loop.induct)
  case (1 onData onKey step lastX i cursor pts)
  note sorted = "1.prems"(4) and inv = "1.prems"(5)
  show ?case
  proof (cases "i = 0")
    case True
    have "resolve onData onKey step lastX (pts ! k) = pts ! k" if "int k \<le> cursor" for k
    proof -
      have k: "k \<le> nat cursor" "nat cursor < length pts" "0 \<le> cursor"
        using that "1.prems"(3) by auto
      have "\<not> candidate onKey (p_x (pts ! k)) (onData ! j)" if "j < length onData" for j
      proof
        assume c: "candidate onKey (p_x (pts ! k)) (onData ! j)"
        have "p_x (pts ! k) \<le> p_x (pts ! nat cursor)" using sorted k by blast
        with c have "candidate onKey (p_x (pts ! nat cursor)) (onData ! j)"
          by (auto simp: candidate_def)
        with inv True k that show False by auto
      qed
      then have "nearest_left onData onKey (p_x (pts ! k)) (length onData) = None"
        by (simp add: nearest_left_None)
      then show ?thesis by (simp add: resolve_def)
    qed
    with True show ?thesis by (subst attach_loop.simps) auto
  next
    case ipos: False
    show ?thesis
    proof (cases "cursor = - 1")
      case True
      then have "nth_js pts cursor = None" by (simp add: nth_js_def)
      with ipos True show ?thesis by (subst attach_loop.simps) auto
    next
      case False
      with "1.prems" have c0: "0 \<le> cursor" "nat cursor < length pts" by auto
      define pt where "pt = pts ! nat cursor"
      define leftPoint where "leftPoint = onData ! (i - 1)"
      have npt: "nth_js pts cursor = Some pt"
        using c0 "1.prems"(3) by (simp add: nth_js_def pt_def)
      have "nat (int i - 1) = i - Suc 0" using ipos by arith
      then have nlp: "nth_js onData (int (i - 1)) = Some leftPoint"
        using ipos "1.prems"(1) by (simp add: nth_js_def leftPoint_def)
      show ?thesis
      proof (cases "candidate onKey (p_x pt) leftPoint")
        case cand: True
        define pts' where "pts' = (if p_x pt \<le> lastX
                        then pts[nat cursor := bind_point onData onKey step (i - 1) leftPoint pt]
                        else pts)"
        have nl: "nearest_left onData onKey (p_x pt) (length onData) = Some (i - 1)"
          unfolding nearest_left_Some
          using cand inv c0 ipos "1.prems"(1) by (auto simp: pt_def leftPoint_def)
        have res: "resolve onData onKey step lastX pt = pts' ! nat cursor"
          using nl c0 by (simp add: resolve_def pts'_def leftPoint_def pt_def[symmetric])
        have len: "length pts' = length pts" by (simp add: pts'_def)
        have px: "p_x (pts' ! k) = p_x (pts ! k)" if "k < length pts" for k
          using that c0 by (cases "k = nat cursor") (auto simp: pts'_def pt_def)
        have other: "pts' ! k = pts ! k" if "k \<noteq> nat cursor" for k
          using that by (simp add: pts'_def)
        show ?thesis
        proof (cases "cursor - 1 < 0")
          case True
          then have cz: "cursor = 0" using c0 by simp
          have "attach_loop onData onKey step lastX i cursor pts = Inr pts'"
            using ipos npt nlp cand True
            by (subst attach_loop.simps) (simp add: candidate_def pts'_def Let_def)
          moreover have "pts' ! k = (if int k \<le> cursor then resolve onData onKey step lastX (pts ! k) else pts ! k)"
            if "k < length pts" for k
            using that cz res other[of k] by (cases "k = 0") (auto simp: pt_def)
          ultimately show ?thesis using len by simp
        next
          case False
          have eq: "attach_loop onData onKey step lastX i cursor pts =
                attach_loop onData onKey step lastX i (cursor - 1) pts'"
            using ipos npt nlp cand False
            by (subst attach_loop.simps) (simp add: candidate_def pts'_def Let_def)
          have sorted': "\<forall>a b. a \<le> b \<and> b < length pts' \<longrightarrow> p_x (pts' ! a) \<le> p_x (pts' ! b)"
            using sorted px len by auto
          have inv': "\<forall>j. 0 \<le> cursor - 1 \<and> i \<le> j \<and> j < length onData \<longrightarrow>
                \<not> candidate onKey (p_x (pts' ! nat (cursor - 1))) (onData ! j)"
          proof (intro allI impI notI)
            fix j assume j: "0 \<le> cursor - 1 \<and> i \<le> j \<and> j < length onData"
              and c: "candidate onKey (p_x (pts' ! nat (cursor - 1))) (onData ! j)"
            have "p_x (pts' ! nat (cursor - 1)) = p_x (pts ! nat (cursor - 1))"
              using c0 by (intro px) auto
            moreover have "p_x (pts ! nat (cursor - 1)) \<le> p_x (pts ! nat cursor)"
            proof -
              have "nat (cursor - 1) \<le> nat cursor" by simp
              with sorted c0 show ?thesis by blast
            qed
            ultimately have "candidate onKey (p_x (pts ! nat cursor)) (onData ! j)"
              using c by (auto simp: candidate_def)
            with inv j c0 show False by auto
          qed
          have "\<exists>pts''. attach_loop onData onKey step lastX i (cursor - 1) pts' = Inr pts'' \<and>
              length pts'' = length pts' \<and>
              (\<forall>k<length pts'. pts'' ! k =
                (if int k \<le> cursor - 1 then resolve onData onKey step lastX (pts' ! k) else pts' ! k))"
          proof (rule "1.IH"(1)[OF ipos npt nlp _ pts'_def False])
            show "on_x leftPoint \<le> p_x pt \<and> on_props leftPoint onKey \<noteq> None"
              using cand by (simp add: candidate_def)
            show "i \<le> length onData" by (rule "1.prems"(1))
            show "- 1 \<le> cursor - 1" using c0 by simp
            show "cursor - 1 < int (length pts')" using "1.prems"(3) len by simp
            show "\<forall>a b. a \<le> b \<and> b < length pts' \<longrightarrow> p_x (pts' ! a) \<le> p_x (pts' ! b)"
              by (rule sorted')
            show "\<forall>j. 0 \<le> cursor - 1 \<and> i \<le> j \<and> j < length onData \<longrightarrow>
                \<not> candidate onKey (p_x (pts' ! nat (cursor - 1))) (onData ! j)"
              by (rule inv')
          qed
          then obtain pts'' where r: "attach_loop onData onKey step lastX i (cursor - 1) pts' = Inr pts''"
            "length pts'' = length pts'"
            "\<forall>k<length pts'. pts'' ! k =
                (if int k \<le> cursor - 1 then resolve onData onKey step lastX (pts' ! k) else pts' ! k)"
            by blast
          have "pts'' ! k = (if int k \<le> cursor then resolve onData onKey step lastX (pts ! k) else pts ! k)"
            if "k < length pts" for k
          proof (cases "k = nat cursor")
            case True
            then show ?thesis using r(3) that len res c0 by (simp add: pt_def)
          next
            case False
            then show ?thesis using r(3) that len other[of k] c0 by auto
          qed
          then show ?thesis using eq r len by simp
        qed
      next
        case ncand: False
        have eq: "attach_loop onData onKey step lastX i cursor pts =
                attach_loop onData onKey step lastX (i - 1) cursor pts"
          using ipos npt nlp ncand
          by (subst attach_loop.simps) (auto simp: candidate_def)
        have inv': "\<forall>j. 0 \<le> cursor \<and> i - 1 \<le> j \<and> j < length onData \<longrightarrow>
                \<not> candidate onKey (p_x (pts ! nat cursor)) (onData ! j)"
        proof (intro allI impI)
          fix j assume j: "0 \<le> cursor \<and> i - 1 \<le> j \<and> j < length onData"
          show "\<not> candidate onKey (p_x (pts ! nat cursor)) (onData ! j)"
          proof (cases "j = i - 1")
            case True then show ?thesis using ncand by (simp add: pt_def leftPoint_def)
          next
            case False then show ?thesis using inv j by auto
          qed
        qed
        have "\<exists>pts'. attach_loop onData onKey step lastX (i - 1) cursor pts = Inr pts' \<and>
           length pts' = length pts \<and>
           (\<forall>k<length pts. pts' ! k =
              (if int k \<le> cursor then resolve onData onKey step lastX (pts ! k) else pts ! k))"
        proof (rule "1.IH"(2)[OF ipos npt nlp])
          show "\<not> (on_x leftPoint \<le> p_x pt \<and> on_props leftPoint onKey \<noteq> None)"
            using ncand by (simp add: candidate_def)
          show "i - 1 \<le> length onData" using "1.prems"(1) by simp
          show "- 1 \<le> cursor" by (rule "1.prems"(2))
          show "cursor < int (length pts)" by (rule "1.prems"(3))
          show "\<forall>a b. a \<le> b \<and> b < length pts \<longrightarrow> p_x (pts ! a) \<le> p_x (pts ! b)"
            by (rule sorted)
          show "\<forall>j. 0 \<le> cursor \<and> i - 1 \<le> j \<and> j < length onData \<longrightarrow>
                \<not> candidate onKey (p_x (pts ! nat cursor)) (onData ! j)"
            by (rule inv')
        qed
        with eq show ?thesis by simp
      qed
    qed
  qed
qed

section \<open>The walk over the points places and ranks them\<close>

lemma plotX_place_point [simp]: "plotX (place_point c xo pt) = plotX pt + xo"
  by (simp add: place_point_def Let_def)

lemma stackIndex_place_point [simp]: "stackIndex (place_point c xo pt) = stackIndex pt"
  by (simp add: place_point_def Let_def)

lemma stack_fold_spec:
  "n \<le> length pts \<Longrightarrow>
   length (fold (stack_step c xo) [0..<n] pts) = length pts \<and>
   (\<forall>k<length pts. fold (stack_step c xo) [0..<n] pts ! k =
      (if k < n then (place_point c xo (pts ! k))\<lparr>stackIndex := stackIndex_after pts n k\<rparr>
       else pts ! k))"
proof (induction n)
  case 0
  then show ?case by simp
next
  case (Suc n)
  define r where "r = fold (stack_step c xo) [0..<n] pts"
  have n: "n < length pts" using Suc.prems by simp
  have len: "length r = length pts"
    and nth: "\<And>k. k < length pts \<Longrightarrow> r ! k =
      (if k < n then (place_point c xo (pts ! k))\<lparr>stackIndex := stackIndex_after pts n k\<rparr>
       else pts ! k)"
    using Suc.IH n by (simp_all add: r_def)
  have step: "fold (stack_step c xo) [0..<Suc n] pts = stack_step c xo n r"
    by (simp add: r_def)
  have rn: "r ! n = pts ! n" using nth[of n] n by simp
  show ?case
  proof (cases n)
    case 0
    then have "stack_step c xo n r = r[0 := (place_point c xo (pts ! 0))\<lparr>stackIndex := None\<rparr>]"
      using rn by (simp add: stack_step_def nth_js_def)
    then show ?thesis
      unfolding step using 0 len nth n
      by (auto simp: stackIndex_after_def nth_list_update)
  next
    case (Suc m)
    have m: "m < n" "m < length pts" using Suc n by auto
    have rm: "r ! m = (place_point c xo (pts ! m))\<lparr>stackIndex := stackIndex_after pts n m\<rparr>"
      using nth[of m] m by simp
    have sm: "stackIndex_after pts n m = (if 0 < rank pts m then Some (rank pts m) else None)"
      using Suc by (simp add: stackIndex_after_def)
    have last: "nth_js r (int n - 1) = Some (r ! m)"
      using Suc len n by (simp add: nth_js_def)
    show ?thesis
    proof (cases "plotX (pts ! m) = plotX (pts ! n)")
      case True
      have rk: "rank pts n = rank pts m + 1" using True Suc by simp
      have "stack_step c xo n r =
          r[m := (place_point c xo (pts ! m))\<lparr>stackIndex := Some (rank pts m)\<rparr>,
            n := (place_point c xo (pts ! n))\<lparr>stackIndex := Some (rank pts m + 1)\<rparr>]"
        using True last rn rm sm Suc by (simp add: stack_step_def Let_def)
      moreover have "stackIndex_after pts (Suc n) k = stackIndex_after pts n k" if "k < m" for k
        using that Suc by (simp add: stackIndex_after_def)
      moreover have "stackIndex_after pts (Suc n) m = Some (rank pts m)"
        using True Suc by (simp add: stackIndex_after_def)
      moreover have "stackIndex_after pts (Suc n) n = Some (rank pts m + 1)"
        using rk by (simp add: stackIndex_after_def)
      ultimately show ?thesis
        unfolding step using len nth n m Suc
        by (auto simp: nth_list_update less_Suc_eq)
    next
      case False
      have rk: "rank pts n = 0" using False Suc by simp
      have "stack_step c xo n r = r[n := (place_point c xo (pts ! n))\<lparr>stackIndex := None\<rparr>]"
        using False last rn rm by (simp add: stack_step_def Let_def)
      moreover have "stackIndex_after pts (Suc n) k = stackIndex_after pts n k" if "k < n" for k
        using that Suc False by (auto simp: stackIndex_after_def less_Suc_eq)
      moreover have "stackIndex_after pts (Suc n) n = None"
        using rk by (simp add: stackIndex_after_def)
      ultimately show ?thesis
        unfolding step using len nth n m Suc
        by (auto simp: nth_list_update less_Suc_eq)
    qed
  qed
qed

lemma each_stack_step:
  "length (each (stack_step c xo) pts) = length pts"
  "k < length pts \<Longrightarrow> each (stack_step c xo) pts ! k =
      (place_point c xo (pts ! k))\<lparr>stackIndex := stackIndex_after pts (length pts) k\<rparr>"
  using stack_fold_spec[of "length pts" pts c xo] by (simp_all add: each_def)

section \<open>translate as a whole\<close>

lemma plotKey_onKey_of: "\<exists>key. plotKey (onKey_of opts) = Inr key"
  by (cases "o_onKey opts")
     (auto simp: plotKey_def onKey_of_def or_str_def truthy_str_def split: list.splits)

lemma sorted_stableSort:
  "\<forall>a b. a \<le> b \<and> b < length (stableSort ps) \<longrightarrow>
     p_x (stableSort ps ! a) \<le> p_x (stableSort ps ! b)"
proof -
  have "sorted (map p_x (stableSort ps))" by (simp add: stableSort_def)
  then show ?thesis
    by (auto simp: sorted_iff_nth_mono dest!: spec[where x = a] ) 
qed

lemma length_stableSort [simp]: "length (stableSort ps) = length ps"
  by (simp add: stableSort_def)

lemma attach_bound:
  assumes "onSeries_of s = Some os" "visible os" "on_points os \<noteq> []"
    and "plotKey (onKey_of (options s)) = Inr key"
  shows "\<exists>pts'. attach s = Inr (xOffset_of os, pts') \<and> length pts' = length (points s) \<and>
           (\<forall>k<length (points s). pts' ! k =
              resolve (on_points os) key (truthy_str (on_step os)) (lastX_of os)
                (stableSort (points s) ! k))"
proof -
  let ?pts = "stableSort (points s)"
  have "\<exists>pts'. attach_loop (on_points os) key (truthy_str (on_step os)) (lastX_of os)
            (length (on_points os)) (int (length ?pts) - 1) ?pts = Inr pts' \<and>
           length pts' = length ?pts \<and>
           (\<forall>k<length ?pts. pts' ! k =
              (if int k \<le> int (length ?pts) - 1
               then resolve (on_points os) key (truthy_str (on_step os)) (lastX_of os) (?pts ! k)
               else ?pts ! k))"
    by (rule attach_loop_spec) (use sorted_stableSort in auto)
  then obtain pts' where r:
    "attach_loop (on_points os) key (truthy_str (on_step os)) (lastX_of os)
            (length (on_points os)) (int (length ?pts) - 1) ?pts = Inr pts'"
    "length pts' = length ?pts"
    "\<forall>k<length ?pts. pts' ! k =
              (if int k \<le> int (length ?pts) - 1
               then resolve (on_points os) key (truthy_str (on_step os)) (lastX_of os) (?pts ! k)
               else ?pts ! k)"
    by blast
  have "attach s = Inr (xOffset_of os, pts')"
    using assms r(1) by (simp add: attach_def Let_def)
  moreover have "pts' ! k = resolve (on_points os) key (truthy_str (on_step os)) (lastX_of os) (?pts ! k)"
    if "k < length (points s)" for k
    using r(3) that by auto
  ultimately show ?thesis using r(2) by simp
qed

lemma attach_total: "\<exists>xo pts. attach s = Inr (xo, pts) \<and> length pts = length (points s)"
proof (cases "onSeries_of s")
  case None
  then show ?thesis by (simp add: attach_def)
next
  case (Some os)
  show ?thesis
  proof (cases "visible os \<and> on_points os \<noteq> []")
    case True
    obtain key where "plotKey (onKey_of (options s)) = Inr key"
      using plotKey_onKey_of by blast
    with attach_bound[OF Some] True show ?thesis by blast
  next
    case False
    with Some show ?thesis by (auto simp: attach_def Let_def)
  qed
qed

lemma translate_attach:
  "attach s = Inr (xo, pts) \<Longrightarrow>
   translate s = Inr (s\<lparr>points := each (stack_step (chart s) xo) pts\<rparr>)"
  by (simp add: translate_def)

lemma translate_total: "\<exists>s'. translate s = Inr s'"
  using attach_total[of s] translate_attach by blast

lemma plotY_place_point:
  "plotY (place_point c xo pt) =
     (case plotY pt of
        Some y \<Rightarrow> Some y
      | None \<Rightarrow> if xAxis_min c \<le> p_x pt \<and> p_x pt \<le> xAxis_max c then Some (axis_plotY c) else None)"
  by (simp add: place_point_def Let_def split: option.splits)

lemma shapeArgs_place_point:
  "plotY pt = None \<Longrightarrow> \<not> (xAxis_min c \<le> p_x pt \<and> p_x pt \<le> xAxis_max c) \<Longrightarrow>
   shapeArgs (place_point c xo pt) = []"
  by (auto simp: place_point_def Let_def)

lemma translate_nth:
  assumes "attach s = Inr (xo, pts)" "k < length pts"
  shows "\<exists>s'. translate s = Inr s' \<and> length (points s') = length pts \<and>
     points s' ! k = (place_point (chart s) xo (pts ! k))\<lparr>stackIndex := stackIndex_after pts (length pts) k\<rparr>"
  using assms by (simp add: translate_attach each_stack_step)

lemma p_x_place_point [simp]: "p_x (place_point c xo pt) = p_x pt"
  by (simp add: place_point_def Let_def)

lemma translate_bound_nth:
  assumes "onSeries_of s = Some os" "visible os" "on_points os \<noteq> []"
    and "plotKey (onKey_of (options s)) = Inr key"
    and "k < length (points s)"
  shows "\<exists>pts' s'. attach s = Inr (xOffset_of os, pts') \<and> translate s = Inr s' \<and>
     pts' ! k = resolve (on_points os) key (truthy_str (on_step os)) (lastX_of os)
                  (stableSort (points s) ! k) \<and>
     plotY (points s' ! k) = plotY (place_point (chart s) (xOffset_of os) (pts' ! k))"
proof -
  obtain pts' where a: "attach s = Inr (xOffset_of os, pts')" "length pts' = length (points s)"
    "\<forall>k<length (points s). pts' ! k =
        resolve (on_points os) key (truthy_str (on_step os)) (lastX_of os)
          (stableSort (points s) ! k)"
    using attach_bound[OF assms(1-4)] by blast
  obtain s' where "translate s = Inr s'"
    "points s' ! k = (place_point (chart s) (xOffset_of os) (pts' ! k))
        \<lparr>stackIndex := stackIndex_after pts' (length pts') k\<rparr>"
    using translate_nth[OF a(1), of k] a(2) assms(5) by auto
  with a assms(5) show ?thesis by auto
qed

lemma nearest_left_strict:
  assumes "j < length onData" "candidate onKey v (onData ! j)"
    and "\<forall>j'. j < j' \<and> j' < length onData \<longrightarrow> v < on_x (onData ! j')"
  shows "nearest_left onData onKey v (length onData) = Some j"
  unfolding nearest_left_Some using assms by (auto simp: candidate_def)

lemma lastX_of_ge:
  assumes "j < length (on_points os)" "on_x (on_points os ! j) \<le> v"
    and "\<forall>j'. j < j' \<and> j' < length (on_points os) \<longrightarrow> v < on_x (on_points os ! j')"
    and "0 \<le> totalRange os"
    and "Suc j < length (on_points os) \<or> on_x (on_points os ! j) = v"
  shows "v \<le> lastX_of os"
proof (cases "Suc j < length (on_points os)")
  case True
  then have "j < length (on_points os) - 1 \<and> length (on_points os) - 1 < length (on_points os)"
    by arith
  then have "v < on_x (on_points os ! (length (on_points os) - 1))"
    using assms(3) by blast
  with assms(4) show ?thesis by (simp add: lastX_of_def)
next
  case False
  then have "length (on_points os) - 1 = j" using assms(1) by auto
  with False assms(4,5) show ?thesis by (simp add: lastX_of_def)
qed

lemma rank_pos: "0 < rank pts k \<longleftrightarrow> same_plotX_as_previous pts k"
  by (cases k) (simp_all add: same_plotX_as_previous_def)

lemma rank_Suc_same: "same_plotX_as_previous pts (Suc k) \<Longrightarrow> rank pts (Suc k) = rank pts k + 1"
  by (simp add: same_plotX_as_previous_def)

lemma translate_points:
  assumes "attach s = Inr (xo, pts)"
  shows "\<exists>s'. translate s = Inr s' \<and> options s' = options s \<and> chart s' = chart s \<and>
     length (points s') = length pts \<and>
     (\<forall>k<length pts. points s' ! k =
        (place_point (chart s) xo (pts ! k))\<lparr>stackIndex := stackIndex_after pts (length pts) k\<rparr>)"
  using assms by (simp add: translate_attach each_stack_step)

section \<open>The flags of the example chart\<close>

lemma ex_sorted:
  "stableSort (points ex_series) = [ex_flag 5, ex_flag 10, ex_flag 10, ex_flag 15]"
  by (simp add: stableSort_def ex_series_def ex_flag_def)

lemma ex_length: "length (points ex_series) = 4"
  by (simp add: ex_series_def)

lemma ex_onSeries: "onSeries_of ex_series = Some ex_on"
  by (simp add: onSeries_of_def ex_series_def ex_options_def plotOptions_flags_def
      ex_host_def truthy_str_def)

lemma ex_plotKey: "plotKey (onKey_of (options ex_series)) = Inr ''plotHigh''"
  by code_simp

lemma ex_on_facts:
  "visible ex_on" "\<not> truthy_str (on_step ex_on)" "0 \<le> totalRange ex_on"
  "length (on_points ex_on) = 2" "lastX_of ex_on = 10"
  "on_x (on_points ex_on ! 0) = 0" "on_props (on_points ex_on ! 0) ''plotHigh'' = Some 100"
  "on_x (on_points ex_on ! Suc 0) = 10"
  "on_props (on_points ex_on ! Suc 0) ''plotHigh'' = Some 120"
  by (simp_all add: ex_on_def truthy_str_def totalRange_def lastX_of_def)

lemma ex_axis_attach: "attach ex_axis = Inr (0, points ex_axis)"
  by (simp add: attach_def onSeries_of_def ex_axis_def ex_axis_options_def plotOptions_flags_def
      truthy_str_def)

lemma ex_axis_plotX:
  "(case translate ex_axis of Inl e \<Rightarrow> [] | Inr s' \<Rightarrow> map plotX (points s')) = [50, 50, 50, 250]"
  by code_simp

section \<open>Flags on a related series\<close>

text \<open>C1. Take a flags series on a visible related series, the flag of index \<open>k\<close> in
  the order of the sort, and the reference point \<open>leftPoint\<close> of index \<open>j\<close> such that
  \<open>leftPoint\<close> is the nearest reference point at or left of the flag (every later
  reference point lies strictly right of the flag) and has a defined channel value. If
  \<open>leftPoint.x\<close> is strictly less than \<open>flag.x\<close>, the related series is not in step
  mode, and the next reference point \<open>rightPoint\<close> exists with a defined channel
  value, then \<open>translate\<close> returns and the flag's \<open>plotY\<close> is the linear interpolation
  \<open>left + ((flag.x - left.x) / (right.x - left.x)) * (right - left)\<close> of the two channel
  pixel values. The total range of a data grouping, when there is one, is taken to be
  non-negative, so that \<open>lastX\<close> is not left of the last reference point.\<close>

theorem translate_interpolates:
  assumes "onSeries_of s = Some os" and "visible os"
    and "plotKey (onKey_of (options s)) = Inr key"
    and "k < length (points s)" and "flag = stableSort (points s) ! k"
    and "Suc j < length (on_points os)"
    and "leftPoint = on_points os ! j" and "rightPoint = on_points os ! Suc j"
    and "on_x leftPoint < p_x flag"
    and "\<forall>j'. j < j' \<and> j' < length (on_points os) \<longrightarrow> p_x flag < on_x (on_points os ! j')"
    and "on_props leftPoint key = Some yl" and "on_props rightPoint key = Some yr"
    and "\<not> truthy_str (on_step os)"
    and "0 \<le> totalRange os"
  shows "\<exists>s'. translate s = Inr s' \<and>
           plotY (points s' ! k) =
             Some (yl + ((p_x flag - on_x leftPoint) / (on_x rightPoint - on_x leftPoint)) * (yr - yl))"
proof -
  let ?ds = "on_points os"
  have ne: "?ds \<noteq> []" and j: "j < length ?ds" using assms(6) by auto
  have cand: "candidate key (p_x flag) (?ds ! j)"
    using assms(7,9,11) by (simp add: candidate_def)
  have nl: "nearest_left ?ds key (p_x flag) (length ?ds) = Some j"
    using nearest_left_strict[OF j cand assms(10)] .
  have lx: "p_x flag \<le> lastX_of os"
    using lastX_of_ge[OF j _ assms(10,14)] assms(6,7,9) by simp
  have nr: "nth_js ?ds (int j + 1) = Some rightPoint"
    using assms(6,8) by (simp add: nth_js_def nat_add_distrib)
  have "plotY (resolve ?ds key (truthy_str (on_step os)) (lastX_of os) flag) =
      Some (yl + ((p_x flag - on_x leftPoint) / (on_x rightPoint - on_x leftPoint)) * (yr - yl))"
    using nl lx nr assms(7,9,11,12,13) by (simp add: resolve_def bind_point_def)
  moreover obtain pts' s' where "translate s = Inr s'"
    "pts' ! k = resolve ?ds key (truthy_str (on_step os)) (lastX_of os) flag"
    "plotY (points s' ! k) = plotY (place_point (chart s) (xOffset_of os) (pts' ! k))"
    using translate_bound_nth[OF assms(1,2) ne assms(3,4)] assms(5) by auto
  ultimately show ?thesis by (auto simp: plotY_place_point)
qed

theorem translate_interpolates_witness:
  "\<exists>s'. translate ex_series = Inr s' \<and> plotY (points s' ! 0) = Some 110"
proof -
  have "\<forall>j'. 0 < j' \<and> j' < length (on_points ex_on) \<longrightarrow>
          p_x (ex_flag 5) < on_x (on_points ex_on ! j')"
    by (auto simp: ex_on_facts ex_flag_def less_Suc_eq numeral_2_eq_2)
  then have "\<exists>s'. translate ex_series = Inr s' \<and>
      plotY (points s' ! 0) =
        Some (100 + ((p_x (ex_flag 5) - on_x (on_points ex_on ! 0)) /
                 (on_x (on_points ex_on ! Suc 0) - on_x (on_points ex_on ! 0))) * (120 - 100))"
    by (intro translate_interpolates[OF ex_onSeries _ ex_plotKey, where k = 0 and j = 0])
       (simp_all add: ex_sorted ex_length ex_on_facts ex_flag_def)
  then show ?thesis by (simp add: ex_on_facts ex_flag_def)
qed

text \<open>C2. Take a flags series on a visible related series and the flag of index \<open>k\<close>
  in the order of the sort. If \<open>flag.x\<close> equals the x of the reference point of index
  \<open>j\<close>, whose channel value \<open>v\<close> is defined and after which every reference point
  lies strictly right of the flag (as in a related series of ascending, distinct x),
  then \<open>translate\<close> returns and the flag's \<open>plotY\<close> is exactly \<open>v\<close>, with no
  interpolation. This holds for every such \<open>k\<close>: flags that share the matched reference
  point are each bound against it, as the two flags at x = 10 of the example chart are.
  The total range of a data grouping is taken to be non-negative, as for C1.\<close>

theorem translate_exact_match:
  assumes "onSeries_of s = Some os" and "visible os"
    and "plotKey (onKey_of (options s)) = Inr key"
    and "k < length (points s)" and "flag = stableSort (points s) ! k"
    and "j < length (on_points os)"
    and "refPoint = on_points os ! j"
    and "on_x refPoint = p_x flag"
    and "on_props refPoint key = Some v"
    and "\<forall>j'. j < j' \<and> j' < length (on_points os) \<longrightarrow> p_x flag < on_x (on_points os ! j')"
    and "0 \<le> totalRange os"
  shows "\<exists>s'. translate s = Inr s' \<and> plotY (points s' ! k) = Some v"
proof -
  let ?ds = "on_points os"
  have ne: "?ds \<noteq> []" using assms(6) by auto
  have cand: "candidate key (p_x flag) (?ds ! j)"
    using assms(7,8,9) by (simp add: candidate_def)
  have nl: "nearest_left ?ds key (p_x flag) (length ?ds) = Some j"
    using nearest_left_strict[OF assms(6) cand assms(10)] .
  have lx: "p_x flag \<le> lastX_of os"
    using lastX_of_ge[OF assms(6) _ assms(10,11)] assms(7,8) by simp
  have "plotY (resolve ?ds key (truthy_str (on_step os)) (lastX_of os) flag) = Some v"
    using nl lx assms(7,8,9) by (simp add: resolve_def bind_point_def)
  moreover obtain pts' s' where "translate s = Inr s'"
    "pts' ! k = resolve ?ds key (truthy_str (on_step os)) (lastX_of os) flag"
    "plotY (points s' ! k) = plotY (place_point (chart s) (xOffset_of os) (pts' ! k))"
    using translate_bound_nth[OF assms(1,2) ne assms(3,4)] assms(5) by auto
  ultimately show ?thesis by (auto simp: plotY_place_point)
qed

theorem translate_exact_match_witness:
  "\<exists>s'. translate ex_series = Inr s' \<and> plotY (points s' ! 1) = Some 120 \<and>
        plotY (points s' ! 2) = Some 120"
proof -
  have n: "\<forall>j'. 1 < j' \<and> j' < length (on_points ex_on) \<longrightarrow>
          p_x (ex_flag 10) < on_x (on_points ex_on ! j')"
    by (auto simp: ex_on_facts)
  have "\<exists>s'. translate ex_series = Inr s' \<and> plotY (points s' ! 1) = Some 120"
    by (rule translate_exact_match[OF ex_onSeries _ ex_plotKey, where k = 1 and j = 1 and flag = "ex_flag 10", OF _ _ _ _ refl _ _ n])
       (simp_all add: ex_sorted ex_length ex_on_facts ex_flag_def)
  moreover have "\<exists>s'. translate ex_series = Inr s' \<and> plotY (points s' ! 2) = Some 120"
    by (rule translate_exact_match[OF ex_onSeries _ ex_plotKey, where k = 2 and j = 1 and flag = "ex_flag 10", OF _ _ _ _ refl _ _ n])
       (simp_all add: ex_sorted ex_length ex_on_facts ex_flag_def)
  ultimately show ?thesis by auto
qed

text \<open>C3. A flag whose x exceeds \<open>lastX\<close>, the x of the last reference point plus the
  total range of the data grouping when there is one, is not bound: the first half of
  \<open>translate\<close> leaves the flag as it was, and \<open>translate\<close> returns with the \<open>plotY\<close>
  of the axis fallback (the axis position when the flag had no \<open>plotY\<close> and lies within
  the extremes of the x axis, and no \<open>plotY\<close> when it lies outside).\<close>

theorem translate_beyond_lastX:
  assumes "onSeries_of s = Some os" and "visible os" and "on_points os \<noteq> []"
    and "k < length (points s)" and "flag = stableSort (points s) ! k"
    and "lastX_of os < p_x flag"
  shows "\<exists>xo pts' s'. attach s = Inr (xo, pts') \<and> pts' ! k = flag \<and>
           translate s = Inr s' \<and>
           plotY (points s' ! k) =
             (case plotY flag of
                Some y \<Rightarrow> Some y
              | None \<Rightarrow>
                  if xAxis_min (chart s) \<le> p_x flag \<and> p_x flag \<le> xAxis_max (chart s)
                  then Some (axis_plotY (chart s)) else None)"
proof -
  obtain key where key: "plotKey (onKey_of (options s)) = Inr key"
    using plotKey_onKey_of by blast
  have "resolve (on_points os) key (truthy_str (on_step os)) (lastX_of os) flag = flag"
    using assms(6) by (simp add: resolve_def split: option.splits)
  moreover obtain pts' s' where "attach s = Inr (xOffset_of os, pts')" "translate s = Inr s'"
    "pts' ! k = resolve (on_points os) key (truthy_str (on_step os)) (lastX_of os) flag"
    "plotY (points s' ! k) = plotY (place_point (chart s) (xOffset_of os) (pts' ! k))"
    using translate_bound_nth[OF assms(1,2,3) key assms(4)] assms(5) by auto
  ultimately show ?thesis by (auto simp: plotY_place_point)
qed

theorem translate_beyond_lastX_witness:
  "\<exists>xo pts' s'. attach ex_series = Inr (xo, pts') \<and> pts' ! 3 = ex_flag 15 \<and>
        translate ex_series = Inr s' \<and> plotY (points s' ! 3) = Some 340"
proof -
  have "\<exists>xo pts' s'. attach ex_series = Inr (xo, pts') \<and> pts' ! 3 = ex_flag 15 \<and>
           translate ex_series = Inr s' \<and>
           plotY (points s' ! 3) =
             (case plotY (ex_flag 15) of
                Some y \<Rightarrow> Some y
              | None \<Rightarrow>
                  if xAxis_min (chart ex_series) \<le> p_x (ex_flag 15) \<and>
                     p_x (ex_flag 15) \<le> xAxis_max (chart ex_series)
                  then Some (axis_plotY (chart ex_series)) else None)"
    by (rule translate_beyond_lastX[OF ex_onSeries, where k = 3])
       (simp_all add: ex_sorted ex_length ex_on_facts ex_flag_def, simp add: ex_on_def)
  then show ?thesis
    by (simp add: ex_series_def ex_flag_def ex_host_def axis_plotY_def)
qed

section \<open>Stacks\<close>

text \<open>C4, as the code has it. \<open>translate\<close> returns, and for every point in the final
  order: its \<open>stackIndex\<close> is a positive number if and only if the point right before it
  has the same pixel \<open>plotX\<close>, and then it is the \<open>stackIndex\<close> of that point plus 1,
  which is a number (0 for a point that was unranked until then). A point that does not
  share the \<open>plotX\<close> of the point before it has the \<open>stackIndex\<close> 0 when the point
  after it shares its \<open>plotX\<close>, and none otherwise. So a \<open>stackIndex\<close> can be defined,
  as 0, on the first point of a stack, which no point of its \<open>plotX\<close> precedes.\<close>

theorem translate_stackIndex:
  "\<exists>s'. translate s = Inr s' \<and>
     (\<forall>k<length (points s').
        ((\<exists>m. stackIndex (points s' ! k) = Some (Suc m)) \<longleftrightarrow>
           same_plotX_as_previous (points s') k) \<and>
        (same_plotX_as_previous (points s') k \<longrightarrow>
           (\<exists>m. stackIndex (points s' ! (k - 1)) = Some m \<and>
                stackIndex (points s' ! k) = Some (m + 1))) \<and>
        (stackIndex (points s' ! k) = Some 0 \<longleftrightarrow>
           \<not> same_plotX_as_previous (points s') k \<and> same_plotX_as_next (points s') k))"
proof -
  obtain xo pts where a: "attach s = Inr (xo, pts)"
    using attach_total by blast
  obtain s' where s': "translate s = Inr s'" "length (points s') = length pts"
    and nth: "\<And>k. k < length pts \<Longrightarrow> points s' ! k =
        (place_point (chart s) xo (pts ! k))\<lparr>stackIndex := stackIndex_after pts (length pts) k\<rparr>"
    using translate_points[OF a] by blast
  have px: "plotX (points s' ! k) = plotX (pts ! k) + xo" if "k < length pts" for k
    using nth[OF that] by simp
  have si: "stackIndex (points s' ! k) = stackIndex_after pts (length pts) k"
    if "k < length pts" for k
    using nth[OF that] by simp
  have prev: "same_plotX_as_previous (points s') k = same_plotX_as_previous pts k"
    if "k < length pts" for k
    using that px[of k] px[of "k - 1"] by (auto simp: same_plotX_as_previous_def)
  have nxt: "same_plotX_as_next (points s') k = same_plotX_as_next pts k"
    if "k < length pts" for k
    using that px[of k] px[of "Suc k"] s'(2) by (auto simp: same_plotX_as_next_def)
  have "((\<exists>m. stackIndex (points s' ! k) = Some (Suc m)) \<longleftrightarrow>
           same_plotX_as_previous (points s') k) \<and>
        (same_plotX_as_previous (points s') k \<longrightarrow>
           (\<exists>m. stackIndex (points s' ! (k - 1)) = Some m \<and>
                stackIndex (points s' ! k) = Some (m + 1))) \<and>
        (stackIndex (points s' ! k) = Some 0 \<longleftrightarrow>
           \<not> same_plotX_as_previous (points s') k \<and> same_plotX_as_next (points s') k)"
    if k: "k < length pts" for k
  proof (intro conjI impI)
    have rp: "same_plotX_as_previous (points s') k = (0 < rank pts k)"
      using prev[OF k] rank_pos[of pts k] by simp
    show "(\<exists>m. stackIndex (points s' ! k) = Some (Suc m)) \<longleftrightarrow>
           same_plotX_as_previous (points s') k"
      using rp si[OF k] by (auto simp: stackIndex_after_def gr0_conv_Suc)
    show "stackIndex (points s' ! k) = Some 0 \<longleftrightarrow>
           \<not> same_plotX_as_previous (points s') k \<and> same_plotX_as_next (points s') k"
      using rp nxt[OF k] si[OF k] by (auto simp: stackIndex_after_def same_plotX_as_next_def)
  next
    assume "same_plotX_as_previous (points s') k"
    then have p: "same_plotX_as_previous pts k" using prev[OF k] by simp
    then obtain m where m: "k = Suc m" by (cases k) (auto simp: same_plotX_as_previous_def)
    have r: "rank pts k = rank pts m + 1" using p m rank_Suc_same by simp
    have "stackIndex (points s' ! m) = Some (rank pts m)"
      using si[of m] k m p
      by (auto simp: stackIndex_after_def same_plotX_as_previous_def)
    moreover have "stackIndex (points s' ! k) = Some (rank pts m + 1)"
      using si[OF k] r by (simp add: stackIndex_after_def)
    ultimately show "\<exists>m. stackIndex (points s' ! (k - 1)) = Some m \<and>
                stackIndex (points s' ! k) = Some (m + 1)"
      using m by simp
  qed
  with s' show ?thesis by auto
qed

theorem translate_stackIndex_witness:
  "\<exists>s'. translate ex_axis = Inr s' \<and>
        stackIndex (points s' ! 0) = Some 0 \<and> stackIndex (points s' ! 1) = Some 1 \<and>
        stackIndex (points s' ! 2) = Some 2 \<and> stackIndex (points s' ! 3) = None"
proof -
  obtain s' where t: "translate ex_axis = Inr s'"
    and r: "\<forall>k<length (points s').
        ((\<exists>m. stackIndex (points s' ! k) = Some (Suc m)) \<longleftrightarrow>
           same_plotX_as_previous (points s') k) \<and>
        (same_plotX_as_previous (points s') k \<longrightarrow>
           (\<exists>m. stackIndex (points s' ! (k - 1)) = Some m \<and>
                stackIndex (points s' ! k) = Some (m + 1))) \<and>
        (stackIndex (points s' ! k) = Some 0 \<longleftrightarrow>
           \<not> same_plotX_as_previous (points s') k \<and> same_plotX_as_next (points s') k)"
    using translate_stackIndex[of ex_axis] by blast
  have px: "map plotX (points s') = [50, 50, 50, 250]"
    using ex_axis_plotX t by simp
  have len: "length (points s') = 4"
    using arg_cong[OF px, of length] by simp
  have p: "plotX (points s' ! 0) = 50" "plotX (points s' ! 1) = 50"
    "plotX (points s' ! 2) = 50" "plotX (points s' ! 3) = 250"
    using arg_cong[OF px, of "\<lambda>l. l ! 0"] arg_cong[OF px, of "\<lambda>l. l ! 1"]
      arg_cong[OF px, of "\<lambda>l. l ! 2"] arg_cong[OF px, of "\<lambda>l. l ! 3"] len
    by simp_all
  have same: "\<not> same_plotX_as_previous (points s') 0" "same_plotX_as_next (points s') 0"
    "same_plotX_as_previous (points s') 1" "same_plotX_as_previous (points s') 2"
    "\<not> same_plotX_as_previous (points s') 3" "\<not> same_plotX_as_next (points s') 3"
    using p len by (simp_all add: same_plotX_as_previous_def same_plotX_as_next_def
        eval_nat_numeral)
  have s0: "stackIndex (points s' ! 0) = Some 0"
    using r[rule_format, of 0] len same by simp
  have s1: "stackIndex (points s' ! 1) = Some 1"
    using r[rule_format, of 1] len same s0 by auto
  have s2: "stackIndex (points s' ! 2) = Some 2"
    using r[rule_format, of 2] len same s1 by (auto simp: eval_nat_numeral)
  have s3: "stackIndex (points s' ! 3) = None"
  proof (cases "stackIndex (points s' ! 3)")
    case None then show ?thesis .
  next
    case (Some n)
    then show ?thesis using r[rule_format, of 3] len same by (cases n) auto
  qed
  from t s0 s1 s2 s3 show ?thesis by simp
qed

text \<open>C4 as stated fails on the first of the three flags at x = 5: after
  \<open>translate\<close> its \<open>stackIndex\<close> is defined (it is 0), and no point precedes it.\<close>

theorem stackIndex_defined_counterexample:
  "(case translate ex_axis of
      Inl e \<Rightarrow> None
    | Inr s' \<Rightarrow> Some (stackIndex (points s' ! 0), same_plotX_as_previous (points s') 0)) =
   Some (Some 0, False)"
  by code_simp

section \<open>Drawing the flags\<close>

lemma length_drawPoints_loop: "length (drawPoints_loop s n pts) = length pts"
  by (induction n arbitrary: pts) auto

lemma drawPoints_loop_nth:
  "n \<le> length pts \<Longrightarrow> k < length pts \<Longrightarrow>
   drawPoints_loop s n pts ! k = (if k < n then draw_point s (pts ! k) else pts ! k)"
proof (induction n arbitrary: pts)
  case 0 then show ?case by simp
next
  case (Suc n)
  then show ?case by (auto simp: nth_list_update less_Suc_eq)
qed

lemma drawPoints_nth:
  "k < length (points s) \<Longrightarrow> points (drawPoints s) ! k = draw_point s (points s ! k)"
  by (simp add: drawPoints_def drawPoints_loop_nth)

lemma draw_point_plotY: "plotY (draw_point s pt) = plotY pt"
  by (simp add: draw_point_def Let_def split: option.splits)

lemma draw_point_visible:
  assumes "plotY pt = Some y" "0 \<le> plotX pt" "plotX pt \<le> xAxis_len (chart s)"
  shows "\<exists>g. graphic (draw_point s pt) = Some g \<and>
     g_y g = Some (y + o_y (options s) - stack_offset (options s) pt) \<and>
     g_text g = the (or_str (or_str (p_title pt) (o_title (options s))) (Some ''A'')) \<and>
     g_anchorX g = (if stacked pt then None else Some (plotX pt)) \<and>
     g_anchorY g = (if stacked pt then None else plotY pt)"
  using assms
  by (auto simp: draw_point_def Let_def stack_offset_def stacked_def split: option.splits)

lemma draw_point_hidden:
  assumes "plotY pt = None \<or> plotX pt < 0 \<or> xAxis_len (chart s) < plotX pt"
  shows "graphic (draw_point s pt) = None"
  using assms
  by (auto simp: draw_point_def Let_def split: option.splits)

lemma draw_point_graphic_Some:
  assumes "graphic (draw_point s pt) = Some g"
  shows "\<exists>y. plotY pt = Some y \<and> 0 \<le> plotX pt \<and> plotX pt \<le> xAxis_len (chart s)"
proof (rule ccontr)
  assume "\<not> ?thesis"
  then have "plotY pt = None \<or> plotX pt < 0 \<or> xAxis_len (chart s) < plotX pt"
    by (cases "plotY pt") auto
  from draw_point_hidden[OF this] assms show False by simp
qed

lemma ex_drawn_facts:
  "length (points ex_drawn) = 5"
  "o_y (options ex_drawn) = - 30" "o_stackDistance (options ex_drawn) = 12"
  "o_title (options ex_drawn) = Some ''B''"
  "k < 3 \<Longrightarrow> plotY (points ex_drawn ! k) = Some 340"
  "k < 3 \<Longrightarrow> plotX (points ex_drawn ! k) = 50"
  "k < 3 \<Longrightarrow> stackIndex (points ex_drawn ! k) = Some k"
  "k < 3 \<Longrightarrow> p_title (points ex_drawn ! k) = None"
  "xAxis_len (chart ex_drawn) = 300"
  by (auto simp: ex_drawn_def ex_placed_def ex_flag_def ex_host_def ex_axis_options_def
      plotOptions_flags_def
      less_Suc_eq eval_nat_numeral)

lemma ex_drawn_graphic:
  "graphic (points (drawPoints ex_drawn) ! 0) \<noteq> None"
  "graphic (points (drawPoints ex_drawn) ! 2) \<noteq> None"
  by code_simp+

text \<open>C5. \<open>drawPoints\<close> leaves the \<open>plotY\<close> of every point as it was, and a point
  that is drawn (it has a \<open>plotY\<close> and its \<open>plotX\<close> lies within the axis) gets a graphic
  whose y is \<open>plotY\<close> plus the \<open>y\<close> option minus \<open>stackIndex * stackDistance\<close>, the
  last term being 0 for a point without \<open>stackIndex\<close>. With the default distance of 12,
  three flags of one stack are drawn at the base, 12 above and 24 above.\<close>

theorem drawPoints_stack_offset:
  assumes "k < length (points s)" and "pt = points s ! k"
  shows "plotY (points (drawPoints s) ! k) = plotY pt \<and>
     (\<forall>y. plotY pt = Some y \<and> 0 \<le> plotX pt \<and> plotX pt \<le> xAxis_len (chart s) \<longrightarrow>
        (\<exists>g. graphic (points (drawPoints s) ! k) = Some g \<and>
             g_y g = Some (y + o_y (options s) -
                      (case stackIndex pt of None \<Rightarrow> 0
                       | Some n \<Rightarrow> of_nat n * o_stackDistance (options s)))))"
proof (intro conjI allI impI)
  show "plotY (points (drawPoints s) ! k) = plotY pt"
    using assms by (simp add: drawPoints_nth draw_point_plotY)
next
  fix y assume "plotY pt = Some y \<and> 0 \<le> plotX pt \<and> plotX pt \<le> xAxis_len (chart s)"
  then have "plotY pt = Some y" "0 \<le> plotX pt" "plotX pt \<le> xAxis_len (chart s)"
    by simp_all
  from draw_point_visible[OF this]
  show "\<exists>g. graphic (points (drawPoints s) ! k) = Some g \<and>
             g_y g = Some (y + o_y (options s) -
                      (case stackIndex pt of None \<Rightarrow> 0
                       | Some n \<Rightarrow> of_nat n * o_stackDistance (options s)))"
    using assms by (auto simp: drawPoints_nth stack_offset_def)
qed

theorem drawPoints_stack_offset_witness:
  "(\<exists>g. graphic (points (drawPoints ex_drawn) ! 0) = Some g \<and> g_y g = Some 310) \<and>
   (\<exists>g. graphic (points (drawPoints ex_drawn) ! 1) = Some g \<and> g_y g = Some (310 - 12)) \<and>
   (\<exists>g. graphic (points (drawPoints ex_drawn) ! 2) = Some g \<and> g_y g = Some (310 - 24)) \<and>
   plotY (points (drawPoints ex_drawn) ! 0) = Some 340 \<and>
   plotY (points (drawPoints ex_drawn) ! 1) = Some 340 \<and>
   plotY (points (drawPoints ex_drawn) ! 2) = Some 340"
proof -
  have d: "plotY (points (drawPoints ex_drawn) ! k) = Some 340 \<and>
     (\<exists>g. graphic (points (drawPoints ex_drawn) ! k) = Some g \<and>
          g_y g = Some (340 + - 30 - of_nat k * 12))" if "k < 3" for k
    using drawPoints_stack_offset[of k ex_drawn "points ex_drawn ! k"] that
    by (simp add: ex_drawn_facts)
  from d[of 0] d[of 1] d[of 2] show ?thesis by simp
qed

text \<open>C6. A point that has a graphic after \<open>drawPoints\<close> has been drawn by it. If its
  \<open>stackIndex\<close> is greater than 0, \<open>anchorX\<close> and \<open>anchorY\<close> of the graphic are
  \<open>undefined\<close>; otherwise (rank 0 or no rank) they are the \<open>plotX\<close> and the \<open>plotY\<close> of
  the point, which are defined.\<close>

theorem drawPoints_anchor:
  assumes "k < length (points s)" and "pt = points s ! k"
    and "graphic (points (drawPoints s) ! k) = Some g"
  shows "(if stacked pt then g_anchorX g = None \<and> g_anchorY g = None
          else g_anchorX g = Some (plotX pt) \<and> g_anchorY g = plotY pt \<and> plotY pt \<noteq> None)"
proof -
  have g: "graphic (draw_point s pt) = Some g"
    using assms by (simp add: drawPoints_nth)
  then obtain y where v: "plotY pt = Some y" "0 \<le> plotX pt" "plotX pt \<le> xAxis_len (chart s)"
    using draw_point_graphic_Some by blast
  from draw_point_visible[OF v] g v(1) show ?thesis by auto
qed

theorem drawPoints_anchor_witness:
  "(\<exists>g. graphic (points (drawPoints ex_drawn) ! 0) = Some g \<and>
        g_anchorX g = Some 50 \<and> g_anchorY g = Some 340) \<and>
   (\<exists>g. graphic (points (drawPoints ex_drawn) ! 2) = Some g \<and>
        g_anchorX g = None \<and> g_anchorY g = None)"
proof -
  obtain g g' where g: "graphic (points (drawPoints ex_drawn) ! 0) = Some g"
    and g': "graphic (points (drawPoints ex_drawn) ! 2) = Some g'"
    using ex_drawn_graphic by auto
  have e: "\<not> stacked (points ex_drawn ! 0)" "stacked (points ex_drawn ! 2)"
    by (simp_all add: stacked_def ex_drawn_facts)
  show ?thesis
    using drawPoints_anchor[of 0 ex_drawn "points ex_drawn ! 0" g]
      drawPoints_anchor[of 2 ex_drawn "points ex_drawn ! 2" g'] g g' e
    by (simp add: ex_drawn_facts)
qed

text \<open>C7. Take a flag that the first half of \<open>translate\<close> has left without \<open>plotY\<close>
  (an unattached flag) and whose x lies outside the extremes of the x axis. Then
  \<open>translate\<close> returns, the flag still has no \<open>plotY\<close>, its \<open>shapeArgs\<close> are the empty
  object, and after \<open>drawPoints\<close> it has no graphic: none is created, and one that
  existed is destroyed.\<close>

theorem unattached_outside_extremes:
  assumes "attach s = Inr (xo, pts)" and "k < length pts"
    and "plotY (pts ! k) = None"
    and "p_x (pts ! k) < xAxis_min (chart s) \<or> xAxis_max (chart s) < p_x (pts ! k)"
  shows "\<exists>s'. translate s = Inr s' \<and> plotY (points s' ! k) = None \<and>
           shapeArgs (points s' ! k) = [] \<and> graphic (points (drawPoints s') ! k) = None"
proof -
  obtain s' where s': "translate s = Inr s'" "length (points s') = length pts"
    and nth: "points s' ! k =
        (place_point (chart s) xo (pts ! k))\<lparr>stackIndex := stackIndex_after pts (length pts) k\<rparr>"
    using translate_points[OF assms(1)] assms(2) by blast
  have out: "\<not> (xAxis_min (chart s) \<le> p_x (pts ! k) \<and> p_x (pts ! k) \<le> xAxis_max (chart s))"
    using assms(4) by auto
  have y: "plotY (points s' ! k) = None"
    using nth assms(3) out by (simp add: plotY_place_point)
  have a: "shapeArgs (points s' ! k) = []"
    using nth shapeArgs_place_point[OF assms(3) out] by simp
  have "graphic (points (drawPoints s') ! k) = None"
    using s'(2) assms(2) y by (simp add: drawPoints_nth draw_point_hidden)
  with s' y a show ?thesis by simp
qed

theorem unattached_outside_extremes_witness:
  "graphic (points ex_axis ! 3) = Some ex_label \<and>
   (\<exists>s'. translate ex_axis = Inr s' \<and> plotY (points s' ! 3) = None \<and>
           shapeArgs (points s' ! 3) = [] \<and> graphic (points (drawPoints s') ! 3) = None)"
proof -
  have "p_x (points ex_axis ! 3) < xAxis_min (chart ex_axis) \<or>
      xAxis_max (chart ex_axis) < p_x (points ex_axis ! 3)"
    "plotY (points ex_axis ! 3) = None" "3 < length (points ex_axis)"
    "graphic (points ex_axis ! 3) = Some ex_label"
    by (simp_all add: ex_axis_def ex_host_def ex_flag_def)
  with unattached_outside_extremes[OF ex_axis_attach, of 3] show ?thesis by simp
qed

text \<open>C10, as the code has it. The text of a drawn flag is the title of the point when
  that is set and not the empty string, otherwise the title of the series when that is
  set and not the empty string, otherwise \<open>A\<close>.\<close>

theorem drawPoints_title:
  assumes "k < length (points s)" and "pt = points s ! k"
    and "graphic (points (drawPoints s) ! k) = Some g"
  shows "g_text g =
     (if truthy_str (p_title pt) then the (p_title pt)
      else if truthy_str (o_title (options s)) then the (o_title (options s))
      else ''A'')"
proof -
  have g: "graphic (draw_point s pt) = Some g"
    using assms by (simp add: drawPoints_nth)
  then obtain y where "plotY pt = Some y" "0 \<le> plotX pt" "plotX pt \<le> xAxis_len (chart s)"
    using draw_point_graphic_Some by blast
  from draw_point_visible[OF this] g show ?thesis by (auto simp: or_str_def)
qed

theorem drawPoints_title_witness:
  "\<exists>g. graphic (points (drawPoints ex_drawn) ! 0) = Some g \<and> g_text g = ''B''"
proof -
  obtain g where g: "graphic (points (drawPoints ex_drawn) ! 0) = Some g"
    using ex_drawn_graphic by auto
  show ?thesis
    using drawPoints_title[of 0 ex_drawn "points ex_drawn ! 0" g] g
    by (simp add: ex_drawn_facts truthy_str_def)
qed

text \<open>C10 as stated fails on a point whose title is set to the empty string: the
  chain as stated gives the empty string, the drawn text is the title of the series.\<close>

theorem title_empty_counterexample:
  "p_title (points ex_drawn ! 4) = Some [] \<and>
   title_chain (options ex_drawn) (points ex_drawn ! 4) = [] \<and>
   map_option g_text (graphic (points (drawPoints ex_drawn) ! 4)) = Some ''B''"
  by code_simp

section \<open>The mouse-over listener\<close>

lemma revert_fold:
  "n \<le> length pts \<Longrightarrow>
   length (fold (revert_step k) [0..<n] pts) = length pts \<and>
   (\<forall>j<length pts. fold (revert_step k) [0..<n] pts ! j =
      (if j < n \<and> j \<noteq> k then revert_point (pts ! j) else pts ! j))"
proof (induction n)
  case 0
  then show ?case by simp
next
  case (Suc n)
  define r where "r = fold (revert_step k) [0..<n] pts"
  have n: "n < length pts" using Suc.prems by simp
  have len: "length r = length pts"
    and nth: "\<And>j. j < length pts \<Longrightarrow> r ! j =
      (if j < n \<and> j \<noteq> k then revert_point (pts ! j) else pts ! j)"
    using Suc.IH n by (simp_all add: r_def)
  have rn: "r ! n = pts ! n" using nth[of n] n by simp
  have id: "r[n := pts ! n] = r" using rn list_update_id[of r n] by simp
  have "revert_step k n r = (if n \<noteq> k then r[n := revert_point (pts ! n)] else r)"
    using rn id
    by (auto simp: revert_step_def revert_point_def Let_def split: option.splits)
  then show ?case
    using len nth n by (auto simp: r_def[symmetric] nth_list_update less_Suc_eq)
qed

lemma mouseover_nth:
  assumes "k < length pts" and "graphic (pts ! k) \<noteq> None"
  shows "length (mouseover k pts) = length pts"
    and "j < length pts \<Longrightarrow>
         mouseover k pts ! j = (if j = k then raise_point (pts ! k) else revert_point (pts ! j))"
proof -
  obtain g where g: "graphic (pts ! k) = Some g" using assms(2) by auto
  define pts1 where "pts1 = pts[k := raise_point (pts ! k)]"
  have m: "mouseover k pts = each (revert_step k) pts1"
    using g list_update_id[of pts k]
    by (auto simp: mouseover_def Let_def pts1_def raise_point_def stacked_def)
  have l: "length pts1 = length pts" by (simp add: pts1_def)
  have f: "length (fold (revert_step k) [0..<length pts1] pts1) = length pts1 \<and>
   (\<forall>j<length pts1. fold (revert_step k) [0..<length pts1] pts1 ! j =
      (if j < length pts1 \<and> j \<noteq> k then revert_point (pts1 ! j) else pts1 ! j))"
    by (rule revert_fold) simp
  show "length (mouseover k pts) = length pts"
    using f l by (simp add: m each_def)
  show "mouseover k pts ! j = (if j = k then raise_point (pts ! k) else revert_point (pts ! j))"
    if "j < length pts"
    using f l that assms(1) by (auto simp: m each_def pts1_def)
qed

lemma raised_revert_point: "raised (revert_point pt) \<Longrightarrow> raised pt \<and> graphic pt = None"
  by (auto simp: revert_point_def split: option.splits if_splits)

lemma graphic_revert_point [simp]: "graphic (revert_point pt) = None \<longleftrightarrow> graphic pt = None"
  by (auto simp: revert_point_def split: option.splits)

lemma graphic_raise_point [simp]: "graphic (raise_point pt) = None \<longleftrightarrow> graphic pt = None"
  by (auto simp: raise_point_def split: option.splits)

text \<open>One mouse-over event does what C8 says: the stacked point under the mouse, when
  not raised, goes up by 8 from its stored y, and every other raised point that has a
  graphic goes back to its stored y. If every raised point has a graphic, at most one
  point is raised after the event.\<close>

lemma mouseover_event:
  assumes "k < length pts" and "graphic (pts ! k) = Some g"
  shows "drawTracker pts k = Some (mouseover k)"
    and "stacked (pts ! k) \<Longrightarrow> \<not> raised (pts ! k) \<Longrightarrow>
         mouseover k pts ! k =
           (pts ! k)\<lparr>stored_y := g_y g,
                     graphic := Some (g\<lparr>g_y := map_option (\<lambda>y. y - 8) (g_y g)\<rparr>),
                     raised := True\<rparr>"
    and "j < length pts \<Longrightarrow> j \<noteq> k \<Longrightarrow> raised (pts ! j) \<Longrightarrow> graphic (pts ! j) = Some h \<Longrightarrow>
         mouseover k pts ! j =
           (pts ! j)\<lparr>graphic := Some (h\<lparr>g_y := stored_y (pts ! j)\<rparr>), raised := False\<rparr>"
    and "\<forall>j<length pts. raised (pts ! j) \<longrightarrow> graphic (pts ! j) \<noteq> None \<Longrightarrow>
         at_most_one_raised (mouseover k pts)"
proof -
  have g: "graphic (pts ! k) \<noteq> None" using assms(2) by simp
  note nth = mouseover_nth(2)[OF assms(1) g]
  show "drawTracker pts k = Some (mouseover k)"
    using assms by (simp add: drawTracker_def)
  show "mouseover k pts ! k =
           (pts ! k)\<lparr>stored_y := g_y g,
                     graphic := Some (g\<lparr>g_y := map_option (\<lambda>y. y - 8) (g_y g)\<rparr>),
                     raised := True\<rparr>"
    if "stacked (pts ! k)" "\<not> raised (pts ! k)"
    using nth[of k] assms that by (simp add: raise_point_def)
  show "mouseover k pts ! j =
           (pts ! j)\<lparr>graphic := Some (h\<lparr>g_y := stored_y (pts ! j)\<rparr>), raised := False\<rparr>"
    if "j < length pts" "j \<noteq> k" "raised (pts ! j)" "graphic (pts ! j) = Some h"
    using nth[of j] that by (simp add: revert_point_def)
  show "at_most_one_raised (mouseover k pts)"
    if inv: "\<forall>j<length pts. raised (pts ! j) \<longrightarrow> graphic (pts ! j) \<noteq> None"
    unfolding at_most_one_raised_def mouseover_nth(1)[OF assms(1) g]
  proof (intro allI impI)
    fix i j assume ij: "i < length pts" "j < length pts"
      and r: "raised (mouseover k pts ! i) \<and> raised (mouseover k pts ! j)"
    have "a = k" if "a < length pts" "raised (mouseover k pts ! a)" for a
    proof (rule ccontr)
      assume "a \<noteq> k"
      then have "raised (revert_point (pts ! a))" using nth[OF that(1)] that(2) by simp
      then have "raised (pts ! a) \<and> graphic (pts ! a) = None" by (rule raised_revert_point)
      with inv that(1) show False by auto
    qed
    from this[OF ij(1)] this[OF ij(2)] r show "i = j" by simp
  qed
qed

text \<open>C8. Under the mouse-over interaction that \<open>drawTracker\<close> installs, at most one
  marker of the series is to be in the raised state at any time. The listener reverts
  the other raised points only when they have a graphic, and neither \<open>translate\<close> nor
  \<open>drawPoints\<close> resets \<open>raised\<close>. In the session of the example, the upper flag at
  x = 5 is raised, loses its graphic in the zoom and is passed over when the upper flag
  at x = 15 is raised; after the zoom back both are in the raised state, each with a
  graphic, drawn at the y of a flag that is not raised. Then the mouse over the upper
  flag at x = 5 does not move it up, its graphic stays at 298, since the point counts
  as raised already.\<close>

theorem raised_twice_after_zoom:
  "(case ex_session of
      Inl e \<Rightarrow> None
    | Inr s \<Rightarrow> Some (map (\<lambda>p. (raised p, map_option g_y (graphic p))) (points s))) =
   Some [(False, Some (Some 310)), (True, Some (Some 298)),
         (False, Some (Some 310)), (True, Some (Some 298))] \<and>
   (case ex_session of
      Inl e \<Rightarrow> None
    | Inr s \<Rightarrow> Some (map (\<lambda>p. (raised p, map_option g_y (graphic p))) (points (hover 1 s)))) =
   Some [(False, Some (Some 310)), (True, Some (Some 298)),
         (False, Some (Some 310)), (False, Some (Some 298))]"
  by code_simp

section \<open>The circular pin\<close>

text \<open>C9, as the code has it. \<open>circlepin\<close> draws the circle of the renderer in a box
  that is never taller than wide, followed by the connector when both anchors are
  given: when the height \<open>h\<close> exceeds the width \<open>w\<close>, the width of the box is \<open>h\<close> and
  its x is moved left by \<open>Math.round((h - w) / 2)\<close>, half the difference rounded to the
  nearest integer; otherwise the box is the one requested.\<close>

theorem circlepin_box:
  "circlepin base x y w h anchorX anchorY =
     base (if w < h then x - Math_round ((h - w) / 2) else x) y (if w < h then h else w) h @
     (if truthy_num anchorX \<and> truthy_num anchorY
      then [Cmd ''M'', Num (the anchorX),
            Num (if the anchorY < y then y else y + h),
            Cmd ''L'', Num (the anchorX), Num (the anchorY)]
      else []) \<and>
   h \<le> (if w < h then h else w)"
  by (simp add: circlepin_def pin_def pin_box_def Let_def)

text \<open>C9 as stated fails where \<open>h - w\<close> is odd: for a width of 2 and a height of 5 the
  box is moved left by 2, not by half the difference, 3/2.\<close>

theorem circlepin_shift_counterexample:
  "circlepin (\<lambda>x y w h. [Num x, Num y, Num w, Num h]) 0 0 2 5 None None =
     [Num (- 2), Num 0, Num 5, Num 5] \<and>
   (- 2 :: rat) \<noteq> 0 - (5 - 2) / 2"
  by (simp add: circlepin_def pin_def pin_box_def Math_round_def truthy_num_def)

end
